theory Spec2Isabelle
  imports Main "HOL-Library.Word"
begin

section \<open>Python values used by the launchers and the cross-connect\<close>

text \<open>
  Exceptions of the Python sources are values: a function that can raise returns
  \<open>py_error + 'a\<close>, with \<open>Inl\<close> for the exception. \<open>SystemExit c\<close> is \<open>sys.exit(c)\<close>.
\<close>

datatype py_error =
  IndexError | ValueError | TypeError | OverflowError | NoVR | SystemExit int

subsection \<open>Number formatting: \<open>%d\<close>, \<open>%02d\<close>, \<open>%02x\<close>\<close>

text \<open>
  \<open>fmt_d\<close> and \<open>fmt_x\<close> write a natural number in decimal and in lowercase hexadecimal.
  \<open>py_fmt_d\<close>, \<open>py_fmt_x\<close>, \<open>py_fmt_02d\<close> and \<open>py_fmt_02x\<close> are Python's \<open>%d\<close>,
  \<open>%x\<close>, \<open>%02d\<close> and \<open>%02x\<close> on an \<open>int\<close>: a minus sign for a negative number, and
  for the last two zeros on the left up to a minimum width of two characters (the sign
  counts), never a truncation.
\<close>

definition digit_char :: "nat \<Rightarrow> char" where
  "digit_char d = ''0123456789abcdef'' ! d"

fun fmt_d :: "nat \<Rightarrow> string" where
  "fmt_d n = (if n < 10 then [digit_char n] else fmt_d (n div 10) @ [digit_char (n mod 10)])"

fun fmt_x :: "nat \<Rightarrow> string" where
  "fmt_x n = (if n < 16 then [digit_char n] else fmt_x (n div 16) @ [digit_char (n mod 16)])"

declare fmt_d.simps [simp del] fmt_x.simps [simp del]

definition zero_pad2 :: "string \<Rightarrow> string" where
  "zero_pad2 s = replicate (2 - length s) (CHR ''0'') @ s"

definition py_fmt_d :: "int \<Rightarrow> string" where
  "py_fmt_d i = (if i < 0 then CHR ''-'' # fmt_d (nat (- i)) else fmt_d (nat i))"

definition py_fmt_x :: "int \<Rightarrow> string" where
  "py_fmt_x i = (if i < 0 then CHR ''-'' # fmt_x (nat (- i)) else fmt_x (nat i))"

definition py_fmt_02d :: "int \<Rightarrow> string" where
  "py_fmt_02d i = (if i < 0 then CHR ''-'' # fmt_d (nat (- i)) else zero_pad2 (fmt_d (nat i)))"

definition py_fmt_02x :: "int \<Rightarrow> string" where
  "py_fmt_02x i = (if i < 0 then CHR ''-'' # fmt_x (nat (- i)) else zero_pad2 (fmt_x (nat i)))"

subsection \<open>\<open>str.split(sep)\<close> and reading a number back\<close>

text \<open>
  \<open>split_go sep k cur s\<close> scans \<open>s\<close> from the left; \<open>cur\<close> is the field read so far and
  \<open>k\<close> the number of characters of a separator just found that are still to be skipped.
  \<open>py_split sep s\<close> is \<open>s.split(sep)\<close> for a non-empty separator.
\<close>

fun split_go :: "string \<Rightarrow> nat \<Rightarrow> string \<Rightarrow> string \<Rightarrow> string list" where
  "split_go sep k cur [] = [cur]"
| "split_go sep k cur (x # xs) =
     (if 0 < k then split_go sep (k - 1) cur xs
      else if take (length sep) (x # xs) = sep then cur # split_go sep (length sep - 1) [] xs
      else split_go sep 0 (cur @ [x]) xs)"

definition py_split :: "string \<Rightarrow> string \<Rightarrow> string list" where
  "py_split sep s = split_go sep 0 [] s"

definition hex_digit_val :: "char \<Rightarrow> int option" where
  "hex_digit_val c = map_of
     [(CHR ''0'', 0), (CHR ''1'', 1), (CHR ''2'', 2), (CHR ''3'', 3), (CHR ''4'', 4),
      (CHR ''5'', 5), (CHR ''6'', 6), (CHR ''7'', 7), (CHR ''8'', 8), (CHR ''9'', 9),
      (CHR ''a'', 10), (CHR ''b'', 11), (CHR ''c'', 12), (CHR ''d'', 13), (CHR ''e'', 14),
      (CHR ''f'', 15)] c"

fun hex_val_go :: "int \<Rightarrow> string \<Rightarrow> int option" where
  "hex_val_go acc [] = Some acc"
| "hex_val_go acc (c # cs) =
     (case hex_digit_val c of None \<Rightarrow> None | Some d \<Rightarrow> hex_val_go (16 * acc + d) cs)"

definition hex_val :: "string \<Rightarrow> int option" where
  "hex_val s = (if s = [] then None else hex_val_go 0 s)"

section \<open>common/vrnetlab.py: \<open>gen_mac\<close>\<close>

text \<open>
  \<open>gen_mac(last_octet)\<close> draws two bytes with \<open>random.randint(0x00, 0xff)\<close>; the model
  takes them as the arguments \<open>r1\<close> and \<open>r2\<close>.
\<close>

definition gen_mac :: "int \<Rightarrow> int \<Rightarrow> int \<Rightarrow> string" where
  "gen_mac r1 r2 last_octet =
     ''52:54:00:'' @ py_fmt_02x r1 @ '':'' @ py_fmt_02x r2 @ '':'' @ py_fmt_02x last_octet"

text \<open>The colon-separated fields of an address, each read back as a hex number.\<close>

definition mac_octets :: "string \<Rightarrow> int option list" where
  "mac_octets mac = map hex_val (py_split '':'' mac)"

section \<open>sros/docker/launch.py: \<open>uuid_rev_part\<close>\<close>

text \<open>
  \<open>range(0, n, 2)\<close>, and the loop of \<open>uuid_rev_part\<close> over its reversal. Reading
  \<open>part[i]\<close> or \<open>part[i+1]\<close> past the end raises IndexError.
\<close>

definition range_step2 :: "nat \<Rightarrow> nat list" where
  "range_step2 n = map (\<lambda>k. 2 * k) [0 ..< (n + 1) div 2]"

fun uuid_rev_loop :: "'a list \<Rightarrow> nat list \<Rightarrow> 'a list \<Rightarrow> py_error + 'a list" where
  "uuid_rev_loop part [] res = Inr res"
| "uuid_rev_loop part (i # is) res =
     (if \<not> i < length part then Inl IndexError
      else if \<not> i + 1 < length part then Inl IndexError
      else uuid_rev_loop part is ((res @ [part ! i]) @ [part ! (i + 1)]))"

definition uuid_rev_part :: "'a list \<Rightarrow> py_error + 'a list" where
  "uuid_rev_part part = uuid_rev_loop part (rev (range_step2 (length part))) []"

text \<open>The consecutive pairs of a list, used to describe what the loop builds.\<close>

fun chunks2 :: "'a list \<Rightarrow> 'a list list" where
  "chunks2 (a # b # xs) = [a, b] # chunks2 xs"
| "chunks2 xs = []"

section \<open>vr-xcon/xcon.py: the \<open>Tcp2Tap\<close> framer\<close>

type_synonym byte = "8 word"

text \<open>
  \<open>struct.unpack("I", b)\<close> reads four bytes in the byte order of the host, and
  \<open>socket.ntohl\<close> turns a network-order (big-endian) value into host order: the identity
  on a big-endian host, a byte swap on a little-endian one. The host's byte order is a
  parameter. \<open>struct.unpack\<close> raises unless it is given exactly four bytes; the framer
  calls it on \<open>tcp_buf[:4]\<close> only when \<open>len(tcp_buf) > 4\<close>.
\<close>

datatype byteorder = LittleEndian | BigEndian

definition unpack_I :: "byteorder \<Rightarrow> byte list \<Rightarrow> nat" where
  "unpack_I h bs = (case h of
       LittleEndian \<Rightarrow> foldr (\<lambda>b acc. unat b + 256 * acc) bs 0
     | BigEndian \<Rightarrow> foldl (\<lambda>acc b. 256 * acc + unat b) 0 bs)"

definition byteswap32 :: "nat \<Rightarrow> nat" where
  "byteswap32 x = (x mod 256) * 16777216 + (x div 256 mod 256) * 65536 +
                  (x div 65536 mod 256) * 256 + (x div 16777216 mod 256)"

definition ntohl :: "byteorder \<Rightarrow> nat \<Rightarrow> nat" where
  "ntohl h x = (case h of LittleEndian \<Rightarrow> byteswap32 x | BigEndian \<Rightarrow> x)"

text \<open>
  The framer's fields as \<open>__init__\<close> names them; \<open>tcp_state\<close> is 0 (reading the size)
  or 1 (reading the packet) in the source.
\<close>

datatype framer_state = ReadingSize | ReadingPayload

record tcp2tap =
  tcp_state :: framer_state
  tcp_buf :: "byte list"
  tcp_remaining :: nat

text \<open>
  What the parse loop does to the outside: \<open>PktSize n\<close> is the debug line
  "reading size - pkt size: n", logged once for each length header taken off the buffer;
  \<open>TapWrite p\<close> is \<open>os.write(self.tap, p)\<close>.
\<close>

datatype event = PktSize nat | TapWrite "byte list"

definition tcp2tap_init :: tcp2tap where
  "tcp2tap_init = \<lparr>tcp_state = ReadingSize, tcp_buf = [], tcp_remaining = 0\<rparr>"

text \<open>
  One iteration of the inner \<open>while True\<close> (xcon.py lines 72 to 97). The result carries
  \<open>True\<close> when the iteration ended in \<open>break\<close>. The first \<open>if\<close> falls through into the
  second one within the same iteration.
\<close>

definition parse_iter ::
  "byteorder \<Rightarrow> tcp2tap \<Rightarrow> event list \<Rightarrow> (tcp2tap \<times> event list) \<times> bool" where
  "parse_iter h t ev =
     (if tcp_state t = ReadingSize \<and> \<not> length (tcp_buf t) > 4 then ((t, ev), True)
      else
        let (t1, ev1) =
              (if tcp_state t = ReadingSize
               then let size = ntohl h (unpack_I h (take 4 (tcp_buf t)))
                    in (t\<lparr>tcp_buf := drop 4 (tcp_buf t), tcp_remaining := size,
                           tcp_state := ReadingPayload\<rparr>,
                        ev @ [PktSize size])
               else (t, ev))
        in if tcp_state t1 = ReadingPayload
           then if length (tcp_buf t1) < tcp_remaining t1 then ((t1, ev1), True)
                else
                  let payload = take (tcp_remaining t1) (tcp_buf t1)
                  in ((t1\<lparr>tcp_buf := drop (tcp_remaining t1) (tcp_buf t1),
                            tcp_remaining := 0, tcp_state := ReadingSize\<rparr>,
                       ev1 @ [TapWrite payload]), False)
           else ((t1, ev1), False))"

text \<open>
  The loop ends: an iteration that does not break either takes a header of four bytes
  off the buffer, or leaves the state of reading a payload, without adding to the
  buffer.
\<close>

definition framer_measure :: "tcp2tap \<Rightarrow> nat" where
  "framer_measure t =
     2 * length (tcp_buf t) + (if tcp_state t = ReadingPayload then 1 else 0)"

function parse_loop :: "byteorder \<Rightarrow> tcp2tap \<Rightarrow> event list \<Rightarrow> tcp2tap \<times> event list" where
  "parse_loop h t ev =
     (case parse_iter h t ev of
        (r, True) \<Rightarrow> r
      | ((t', ev'), False) \<Rightarrow> parse_loop h t' ev')"
  by pat_completeness auto
termination
proof (relation "measure (\<lambda>(h, t, ev). framer_measure t)", goal_cases)
  case 1
  show ?case by simp
next
  case (2 h t ev x y xa ya)
  then have it: "parse_iter h t ev = ((xa, ya), False)" by auto
  have "framer_measure xa < framer_measure t"
  proof (cases "tcp_state t")
    case ReadingSize
    with it show ?thesis
      by (auto simp: parse_iter_def framer_measure_def Let_def split: if_splits)
  next
    case ReadingPayload
    with it show ?thesis
      by (auto simp: parse_iter_def framer_measure_def Let_def split: if_splits)
  qed
  then show ?case by simp
qed

declare parse_loop.simps [simp del]

text \<open>
  The client-readable branch of \<open>Tcp2Tap.work\<close> after a successful \<open>recv\<close> of \<open>buf\<close>
  (lines 70 to 97), and a sequence of such reads.
\<close>

definition tcp_readable :: "byteorder \<Rightarrow> tcp2tap \<Rightarrow> byte list \<Rightarrow> tcp2tap \<times> event list" where
  "tcp_readable h t buf = parse_loop h (t\<lparr>tcp_buf := tcp_buf t @ buf\<rparr>) []"

fun tcp_reads :: "byteorder \<Rightarrow> tcp2tap \<Rightarrow> byte list list \<Rightarrow> tcp2tap \<times> event list" where
  "tcp_reads h t [] = (t, [])"
| "tcp_reads h t (buf # bufs) =
     (let (t1, ev1) = tcp_readable h t buf;
          (t2, ev2) = tcp_reads h t1 bufs
      in (t2, ev1 @ ev2))"

text \<open>
  The bytes written to the TAP, the length headers parsed, and the bytes received over
  a sequence of reads.
\<close>

fun tap_bytes :: "event list \<Rightarrow> nat" where
  "tap_bytes [] = 0"
| "tap_bytes (TapWrite p # ev) = length p + tap_bytes ev"
| "tap_bytes (PktSize n # ev) = tap_bytes ev"

fun headers_parsed :: "event list \<Rightarrow> nat" where
  "headers_parsed [] = 0"
| "headers_parsed (PktSize n # ev) = 1 + headers_parsed ev"
| "headers_parsed (TapWrite p # ev) = headers_parsed ev"

definition bytes_received :: "byte list list \<Rightarrow> nat" where
  "bytes_received bufs = sum_list (map length bufs)"

text \<open>The quantity the parse loop conserves.\<close>

definition framer_total :: "tcp2tap \<Rightarrow> event list \<Rightarrow> nat" where
  "framer_total t ev = length (tcp_buf t) + tap_bytes ev + 4 * headers_parsed ev"

section \<open>common/vrnetlab.py: the supervision loop of \<open>VR.start\<close>\<close>

text \<open>
  \<open>update_health\<close> opens \<open>/health\<close> for writing and writes \<open>"%d %s"\<close>; the model returns
  the new content of the file.
\<close>

definition update_health :: "int \<Rightarrow> string \<Rightarrow> string" where
  "update_health exit_status message = py_fmt_d exit_status @ '' '' @ message"

text \<open>
  One pass of the \<open>while True\<close> loop. What \<open>vm.work()\<close> does to a VM depends on the
  emulator and its console; the model takes, for each VM in the order of \<open>self.vms\<close>, the
  value of \<open>vm.running\<close> read right after \<open>vm.work()\<close>. \<open>all_running_loop\<close> is the
  \<open>for\<close> loop.
\<close>

fun all_running_loop :: "bool \<Rightarrow> bool list \<Rightarrow> bool" where
  "all_running_loop all_running [] = all_running"
| "all_running_loop all_running (running # vms) =
     all_running_loop (if running \<noteq> True then False else all_running) vms"

text \<open>The pass returns what it wrote to \<open>/health\<close> and the new value of \<open>started\<close>.\<close>

definition supervise_pass :: "bool \<Rightarrow> bool list \<Rightarrow> string \<times> bool" where
  "supervise_pass started vms =
     (let all_running = all_running_loop True vms
      in if all_running then (update_health 0 ''running'', True)
         else if started then (update_health 1 ''VM failed - restarting'', started)
         else (update_health 1 ''starting'', started))"

text \<open>
  The loop never ends; \<open>supervise\<close> runs it over a finite prefix of passes and returns
  the contents written to \<open>/health\<close>, one for each pass. \<open>VR_start\<close> enters it with
  \<open>started = False\<close>.
\<close>

fun supervise :: "bool \<Rightarrow> bool list list \<Rightarrow> string list" where
  "supervise started [] = []"
| "supervise started (vms # passes) =
     (let (h, started') = supervise_pass started vms in h # supervise started' passes)"

definition VR_start :: "bool list list \<Rightarrow> string list" where
  "VR_start passes = supervise False passes"

text \<open>
  The description the health file is compared with: every VM reports running;
  the content expected at pass \<open>n\<close>; the first position of a list where a predicate holds;
  and the passes at which \<open>0 running\<close> is written right after \<open>1 starting\<close>.
\<close>

definition all_vms_running :: "bool list \<Rightarrow> bool" where
  "all_vms_running vms = list_all (\<lambda>running. running) vms"

definition expected_health :: "bool list list \<Rightarrow> nat \<Rightarrow> string" where
  "expected_health passes n =
     (if all_vms_running (passes ! n) then ''0 running''
      else if list_ex all_vms_running (take n passes) then ''1 VM failed - restarting''
      else ''1 starting'')"

fun first_index :: "('a \<Rightarrow> bool) \<Rightarrow> 'a list \<Rightarrow> nat option" where
  "first_index P [] = None"
| "first_index P (x # xs) = (if P x then Some 0 else map_option Suc (first_index P xs))"

definition start_transitions :: "string list \<Rightarrow> nat list" where
  "start_transitions hs =
     filter (\<lambda>n. hs ! (n - 1) = ''1 starting'' \<and> hs ! n = ''0 running'') [1 ..< length hs]"

section \<open>vr-xcon/xcon.py: \<open>Tcp2Tap.__init__\<close> and the \<open>--tap-listen\<close> entry point\<close>

text \<open>
  The listening socket as \<open>__init__\<close> sets it up: an \<open>AF_INET6\<close> stream socket, the
  address given to \<open>bind\<close>, the backlog given to \<open>listen\<close>. The object holds the
  listener, the accepted client (none at first), the framer fields and the name asked
  of the TAP device; the opening of \<open>/dev/net/tun\<close> and its \<open>ioctl\<close> are not modelled
  further.
\<close>

record listener =
  bind_host :: string
  bind_port :: int
  backlog :: int

record tcp2tap_obj =
  listen_sock :: listener
  tcp_client :: "nat option"
  framer :: tcp2tap
  tap_name :: string

definition Tcp2Tap_init :: "string \<Rightarrow> int \<Rightarrow> tcp2tap_obj" where
  "Tcp2Tap_init tap_intf listen_port =
     \<lparr>listen_sock = \<lparr>bind_host = ''::0'', bind_port = 10001, backlog = 1\<rparr>,
      tcp_client = None,
      framer = tcp2tap_init,
      tap_name = tap_intf\<rparr>"

text \<open>
  The last lines of the script: \<open>Tcp2Tap(args.tap_if, 10000 + int(args.tap_listen))\<close>;
  \<open>tap_listen\<close> is the value of \<open>int(args.tap_listen)\<close>.
\<close>

definition xcon_tap_listen :: "string \<Rightarrow> int \<Rightarrow> tcp2tap_obj" where
  "xcon_tap_listen tap_if tap_listen = Tcp2Tap_init tap_if (10000 + tap_listen)"

section \<open>common/vrnetlab.py: \<open>VM\<close>\<close>

text \<open>
  The fields of a \<open>VM\<close> that the command line, the NIC arguments and the bootstrap
  spin read or write. The child process \<open>p\<close> and the console \<open>tn\<close> are seen through the
  events below.
\<close>

record vm =
  num :: int
  running :: bool
  spins :: int
  nic_type :: string
  num_nics :: int
  qemu_args :: "string list"

text \<open>\<open>xs.insert(1, x)\<close> on a list.\<close>

definition insert_at_1 :: "'a \<Rightarrow> 'a list \<Rightarrow> 'a list" where
  "insert_at_1 x xs = take 1 xs @ [x] @ drop 1 xs"

text \<open>
  \<open>VM.__init__(self, username, password, disk_image, num, ram)\<close>; \<open>kvm\<close> says whether
  \<open>/dev/kvm\<close> exists. The user name and password are stored and not used here.
\<close>

definition VM_init :: "bool \<Rightarrow> string \<Rightarrow> int \<Rightarrow> int \<Rightarrow> vm" where
  "VM_init kvm disk_image num_arg ram =
     (let args = [''qemu-system-x86_64'', ''-display'', ''none''] @
                 [''-m'', py_fmt_d ram,
                  ''-serial'', ''telnet:0.0.0.0:50'' @ py_fmt_02d num_arg @ '',server,nowait'',
                  ''-drive'', ''if=ide,file='' @ disk_image]
      in \<lparr>num = num_arg, running = False, spins = 0, nic_type = ''e1000'', num_nics = 0,
          qemu_args = (if kvm then insert_at_1 ''-enable-kvm'' args else args)\<rparr>)"

text \<open>
  The four arguments that the body of the loop in \<open>gen_nics\<close> appends for NIC \<open>i\<close> (the
  same text in \<open>VM.gen_nics\<close> and \<open>SROS_lc.gen_nics\<close>); \<open>rnd i\<close> is the pair of random
  bytes that \<open>gen_mac(i)\<close> draws.
\<close>

definition gen_nic :: "string \<Rightarrow> (int \<Rightarrow> int \<times> int) \<Rightarrow> int \<Rightarrow> string list" where
  "gen_nic nic_type_arg rnd i =
     [''-device'',
      nic_type_arg @ '',netdev=p'' @ py_fmt_02d i @ '',mac='' @ gen_mac (fst (rnd i)) (snd (rnd i)) i,
      ''-netdev'',
      ''socket,id=p'' @ py_fmt_02d i @ '',listen=:100'' @ py_fmt_02d i]"

text \<open>\<open>VM.gen_nics\<close>: \<open>for i in range(1, self.num_nics)\<close>.\<close>

definition VM_gen_nics :: "(int \<Rightarrow> int \<times> int) \<Rightarrow> 'a vm_scheme \<Rightarrow> string list" where
  "VM_gen_nics rnd v = concat (map (\<lambda>i. gen_nic (nic_type v) rnd i) [1 .. num_nics v - 1])"

text \<open>
  What the child process and the console see. \<open>Start args\<close> is \<open>VM.start\<close>: the Popen of
  the command line and the opening of the console; \<open>Stop\<close> is the terminate, wait and
  kill of \<open>VM.stop\<close>; \<open>Expect\<close> is one call of \<open>tn.expect\<close>.
\<close>

datatype vm_event =
    Stop
  | Start "string list"
  | Expect
  | Console_read_until string
  | Console_write string
  | Console_close

definition wait_write :: "string \<Rightarrow> string option \<Rightarrow> vm_event list" where
  "wait_write cmd wait =
     (case wait of None \<Rightarrow> [] | Some w \<Rightarrow> (if w = [] then [] else [Console_read_until w])) @
     [Console_write (cmd @ [CHR 0x0D])]"

definition VM_stop :: "'a vm_scheme \<Rightarrow> 'a vm_scheme \<times> vm_event list" where
  "VM_stop v = (v\<lparr>running := False\<rparr>, [Stop])"

text \<open>
  \<open>VM.start\<close> extends \<open>self.qemu_args\<close> with the \<open>-uuid\<close>, \<open>-rtc\<close> and \<open>-smbios\<close>
  arguments and with what \<open>gen_mgmt()\<close> and \<open>gen_nics()\<close> of the VM's class return, and
  starts the emulator on the result. Those appended arguments are \<open>extra\<close>. The
  overrides of \<open>start\<close> in \<open>SROS_cp\<close> and \<open>SROS_lc\<close> call it and then attach the VM's
  TAP interface to the bridge \<open>int_cp\<close> with host commands, which leave the VM object
  as it is.
\<close>

definition VM_start :: "string list \<Rightarrow> 'a vm_scheme \<Rightarrow> 'a vm_scheme \<times> vm_event list" where
  "VM_start extra v = (v\<lparr>qemu_args := qemu_args v @ extra\<rparr>, [Start (qemu_args v @ extra)])"

section \<open>sros/docker/launch.py: the SR-OS VMs and their supervisor\<close>

text \<open>
  \<open>SROS_vm.bootstrap_spin\<close>, inherited by the integrated and the control-plane VM.
  \<open>ex = (ridx, matched, res)\<close> is what \<open>tn.expect\<close> returns on this spin, with \<open>matched\<close>
  false on a timeout; \<open>bootstrap_config\<close> is the script of the VM's class, as the
  console events it produces.
\<close>

definition SROS_vm_bootstrap_spin ::
  "string list \<Rightarrow> vm_event list \<Rightarrow> int \<times> bool \<times> string \<Rightarrow> 'a vm_scheme
     \<Rightarrow> 'a vm_scheme \<times> vm_event list" where
  "SROS_vm_bootstrap_spin extra bootstrap_config ex v =
     (if spins v > 60
      then (let (v1, ev1) = VM_stop v;
                (v2, ev2) = VM_start extra v1
            in (v2\<lparr>spins := 0\<rparr>, ev1 @ ev2))
      else
        (case ex of (ridx, matched, res) \<Rightarrow>
           if matched
           then (v\<lparr>running := True\<rparr>,
                 [Expect] @
                 (if ridx = 0
                  then wait_write ''admin'' None @ wait_write ''admin'' (Some ''Password:'')
                  else []) @
                 bootstrap_config @ [Console_close])
           else (let v1 = (if res \<noteq> [] then v\<lparr>spins := 0\<rparr> else v)
                 in (v1\<lparr>spins := spins v1 + 1\<rparr>, [Expect]))))"

text \<open>The fields that the SR-OS classes add.\<close>

datatype sros_class = SROS_integrated | SROS_cp | SROS_lc

record sros_vm = vm +
  sros_class :: sros_class
  slot :: int
  num_lc :: int
  newchassis :: bool

text \<open>\<open>SROS_lc.gen_nics\<close>: \<open>for j in range(0, self.num_nics)\<close> with \<open>i = offset + j + 1\<close>.\<close>

definition SROS_lc_gen_nics :: "(int \<Rightarrow> int \<times> int) \<Rightarrow> sros_vm \<Rightarrow> string list" where
  "SROS_lc_gen_nics rnd v =
     (let offset = 6 * (slot v - 1)
      in concat (map (\<lambda>j. let i = offset + j + 1 in gen_nic (nic_type v) rnd i)
                     [0 .. num_nics v - 1]))"

text \<open>
  \<open>SROS_lc.bootstrap_spin\<close>: a line card has no dialogue and no spin counter check.
\<close>

definition SROS_lc_bootstrap_spin :: "sros_vm \<Rightarrow> sros_vm \<times> vm_event list" where
  "SROS_lc_bootstrap_spin v = (v\<lparr>running := True\<rparr>, [Console_close])"

text \<open>
  A Python call raises TypeError when it passes a keyword that the callee does not
  declare. \<open>VM.__init__\<close> declares \<open>username, password, disk_image, num, ram\<close>;
  \<open>SROS_vm.__init__\<close> calls it with the keywords \<open>disk_image, num, cpus, ram\<close>.
\<close>

definition accepts_keywords :: "string list \<Rightarrow> string list \<Rightarrow> bool" where
  "accepts_keywords params keywords = list_all (\<lambda>k. k \<in> set params) keywords"

definition VM_init_params :: "string list" where
  "VM_init_params = [''username'', ''password'', ''disk_image'', ''num'', ''ram'']"

text \<open>
  \<open>SROS_vm.__init__(self, username, password, num, ram)\<close>. Its first statement is the
  call of the base constructor. After it the constructor sets the UUID and reads the
  license, which touch none of the fields modelled here. The three classes then set
  their own fields.
\<close>

definition SROS_vm_init :: "bool \<Rightarrow> int \<Rightarrow> int \<Rightarrow> py_error + vm" where
  "SROS_vm_init kvm num_arg ram =
     (if accepts_keywords VM_init_params [''disk_image'', ''num'', ''cpus'', ''ram'']
      then Inr (VM_init kvm ''/sros.qcow2'' num_arg ram)
      else Inl TypeError)"

definition SROS_integrated_init :: "bool \<Rightarrow> bool \<Rightarrow> py_error + sros_vm" where
  "SROS_integrated_init kvm newchassis_arg =
     (case SROS_vm_init kvm 0 6144 of
        Inl e \<Rightarrow> Inl e
      | Inr v \<Rightarrow> Inr (vm.extend (v\<lparr>num_nics := 5\<rparr>)
                   (sros_vm.fields SROS_integrated 0 0 newchassis_arg)))"

definition SROS_cp_init :: "bool \<Rightarrow> int \<Rightarrow> bool \<Rightarrow> py_error + sros_vm" where
  "SROS_cp_init kvm num_lc_arg newchassis_arg =
     (case SROS_vm_init kvm 0 6144 of
        Inl e \<Rightarrow> Inl e
      | Inr v \<Rightarrow> Inr (vm.extend (v\<lparr>num_nics := 0\<rparr>)
                   (sros_vm.fields SROS_cp 0 num_lc_arg newchassis_arg)))"

definition SROS_lc_init :: "bool \<Rightarrow> int \<Rightarrow> bool \<Rightarrow> py_error + sros_vm" where
  "SROS_lc_init kvm slot_arg newchassis_arg =
     (case SROS_vm_init kvm slot_arg 6144 of
        Inl e \<Rightarrow> Inl e
      | Inr v \<Rightarrow> Inr (vm.extend (v\<lparr>num_nics := 6\<rparr>)
                   (sros_vm.fields SROS_lc slot_arg 0 newchassis_arg)))"

text \<open>
  \<open>math.ceil(num_nics / 6)\<close>. The source divides in floating point. For a count of
  absolute value below \<open>2 ^ 53\<close> the count is a double, the quotient is rounded by less
  than a sixth, and the result is the ceiling of the exact quotient. From there on the
  result depends on the rounding of the double, and the division raises OverflowError
  for a count beyond the range of the doubles: that part is the parameter
  \<open>float_ceil\<close>.
\<close>

definition ceil_div6 :: "(int \<Rightarrow> py_error + int) \<Rightarrow> int \<Rightarrow> py_error + int" where
  "ceil_div6 float_ceil n =
     (if \<bar>n\<bar> < 2 ^ 53 then Inr (- ((- n) div 6)) else float_ceil n)"

text \<open>The loop \<open>for i in range(1, num_lc+1): self.vms.append(SROS_lc(i, ...))\<close>.\<close>

fun append_lcs :: "bool \<Rightarrow> bool \<Rightarrow> int list \<Rightarrow> sros_vm list \<Rightarrow> py_error + sros_vm list" where
  "append_lcs kvm nc [] vms = Inr vms"
| "append_lcs kvm nc (i # is) vms =
     (case SROS_lc_init kvm i nc of
        Inl e \<Rightarrow> Inl e
      | Inr lc \<Rightarrow> append_lcs kvm nc is (vms @ [lc]))"

text \<open>
  \<open>SROS.__init__(self, username, password, num_nics, newchassis)\<close>, from the test of the
  license on: \<open>license\<close> says whether \<open>/tftpboot/license.txt\<close> is a file once the
  images have been moved into place. The result is \<open>self.vms\<close>; the host commands
  that create the bridge come after it.
\<close>

definition SROS_init ::
  "(int \<Rightarrow> py_error + int) \<Rightarrow> bool \<Rightarrow> bool \<Rightarrow> int \<Rightarrow> bool \<Rightarrow> py_error + sros_vm list" where
  "SROS_init float_ceil kvm license num_nics_arg newchassis_arg =
     (if num_nics_arg > 5
      then if \<not> license then Inl (SystemExit 1)
           else (case ceil_div6 float_ceil num_nics_arg of
                   Inl e \<Rightarrow> Inl e
                 | Inr num_lc_val \<Rightarrow>
                     (case SROS_cp_init kvm num_lc_val newchassis_arg of
                        Inl e \<Rightarrow> Inl e
                      | Inr cp \<Rightarrow> append_lcs kvm newchassis_arg [1 .. num_lc_val] [cp]))
      else (case SROS_integrated_init kvm newchassis_arg of
              Inl e \<Rightarrow> Inl e
            | Inr v \<Rightarrow> Inr [v]))"

section \<open>xrv/docker/launch_xrv.py: the IOS-XR bootstrap spin\<close>

record xrv =
  xrv_credentials :: "(string \<times> string) list"
  xrv_spins :: int
  xrv_username :: string
  xrv_password :: string
  xr_ready :: bool

definition XRV_init :: "string \<Rightarrow> string \<Rightarrow> xrv" where
  "XRV_init username password =
     \<lparr>xrv_credentials = [(''admin'', ''admin'')], xrv_spins = 0,
      xrv_username = username, xrv_password = password, xr_ready = False\<rparr>"

text \<open>
  \<open>XRV.bootstrap_spin\<close> returns the pair \<open>(done, succeeded)\<close>. The tests on \<open>ridx\<close> are
  the source's five \<open>if\<close>s, taken in order; the last one reads \<open>xr_ready\<close> as the second
  may just have set it.
\<close>

definition XRV_bootstrap_spin ::
  "vm_event list \<Rightarrow> int \<times> bool \<times> string \<Rightarrow> xrv \<Rightarrow> (xrv \<times> vm_event list) \<times> (bool \<times> bool)" where
  "XRV_bootstrap_spin bootstrap_config ex x =
     (if xrv_spins x > 300 then ((x, []), (True, False))
      else
        (case ex of (ridx, matched, res) \<Rightarrow>
           let idle = (\<lambda>x1 ev1.
                 let x2 = (if res \<noteq> [] then x1\<lparr>xrv_spins := 0\<rparr> else x1)
                 in ((x2\<lparr>xrv_spins := xrv_spins x2 + 1\<rparr>, ev1), (False, False)))
           in if \<not> matched then idle x [Expect]
              else if ridx = 0 then idle x ([Expect] @ wait_write '''' None)
              else if ridx = 1
                then idle (x\<lparr>xr_ready := True\<rparr>) ([Expect] @ wait_write '''' None)
              else if ridx = 2
                then idle (x\<lparr>xrv_credentials :=
                              (xrv_username x, xrv_password x) # xrv_credentials x\<rparr>)
                          ([Expect] @ wait_write (xrv_username x) None @
                           wait_write (xrv_password x) (Some ''Enter secret:'') @
                           wait_write (xrv_password x) (Some ''Enter secret again:''))
              else if ridx = 3
                then (case xrv_credentials x of
                        [] \<Rightarrow> ((x, [Expect]), (True, False))
                      | (username, password) # rest \<Rightarrow>
                          idle (x\<lparr>xrv_credentials := rest\<rparr>)
                               ([Expect] @ wait_write username None @
                                wait_write password (Some ''Password:'')))
              else if xr_ready x \<and> ridx = 4
                then ((x, [Expect] @ bootstrap_config), (True, True))
              else idle x [Expect]))"

text \<open>
  The loop of \<open>XRV.start\<close>: \<open>while True: done, res = self.bootstrap_spin(); if done:
  break\<close>, run on the console results of the successive spins. \<open>None\<close> means that the
  results given were used up with the loop still spinning.
\<close>

fun XRV_start_loop ::
  "vm_event list \<Rightarrow> (int \<times> bool \<times> string) list \<Rightarrow> xrv \<Rightarrow> vm_event list
     \<Rightarrow> (xrv \<times> vm_event list \<times> bool) option" where
  "XRV_start_loop cfg [] x ev = None"
| "XRV_start_loop cfg (ex # exs) x ev =
     (case XRV_bootstrap_spin cfg ex x of
        ((x1, ev1), (done, res)) \<Rightarrow>
          if done then Some (x1, ev @ ev1, res) else XRV_start_loop cfg exs x1 (ev @ ev1))"

text \<open>
  The NIC loop of \<open>XRV.start_vm\<close>: the \<open>-device\<close> argument is formatted with \<open>i\<close>, the
  \<open>-netdev\<close> argument with \<open>i + 1\<close>.
\<close>

definition XRV_gen_nic :: "(int \<Rightarrow> int \<times> int) \<Rightarrow> int \<Rightarrow> string list" where
  "XRV_gen_nic rnd i =
     (let nics_per_pci_bus = 26;
          pci_bus = i div nics_per_pci_bus;
          addr = i mod nics_per_pci_bus
      in [''-device'',
          ''e1000,netdev=p'' @ py_fmt_02d i @ '',mac='' @ gen_mac (fst (rnd i)) (snd (rnd i)) i @
          '',bus=pci.'' @ py_fmt_d (pci_bus + 1) @ '',addr=0x'' @ py_fmt_x (addr + 1),
          ''-netdev'',
          ''socket,id=p'' @ py_fmt_02d (i + 1) @ '',listen=:100'' @ py_fmt_02d (i + 1)])"

section \<open>Reading the emulator arguments\<close>

text \<open>
  The argument that follows a given option on a command line, and the four arguments
  of a traffic NIC \<open>i\<close> whose socket listens on TCP port \<open>10000 + i\<close>, written with
  \<open>%d\<close>: the \<open>-device\<close> argument and the \<open>-netdev\<close> argument name the same id.
\<close>

fun arg_after :: "string \<Rightarrow> string list \<Rightarrow> string option" where
  "arg_after opt (a # b # rest) = (if a = opt then Some b else arg_after opt (b # rest))"
| "arg_after opt rest = None"

definition nic_on_port :: "string \<Rightarrow> string \<Rightarrow> int \<Rightarrow> string list" where
  "nic_on_port nic_type_arg mac i =
     (let netdev_id = ''p'' @ py_fmt_02d i
      in [''-device'', nic_type_arg @ '',netdev='' @ netdev_id @ '',mac='' @ mac,
          ''-netdev'', ''socket,id='' @ netdev_id @ '',listen=:'' @ py_fmt_d (10000 + i)])"

section \<open>vr-xcon/xcon.py: \<open>TcpBridge\<close>\<close>

text \<open>
  A socket object is identified by a number: \<open>socket.socket(...)\<close> returns an object
  distinct from every object made before, which \<open>next_socket\<close> provides. The two
  dictionaries are keyed by socket objects. \<open>connected\<close> holds the sockets whose
  \<open>connect\<close> has succeeded.

  What the network and the resolver answer is a parameter: \<open>py_int\<close> is \<open>int(...)\<close> on
  a string (\<open>None\<close> for ValueError), \<open>getaddrinfo host port\<close> is the \<open>sockaddr\<close> of the
  first result (\<open>None\<close> for \<open>socket.gaierror\<close>), \<open>connect_ok addr\<close> says whether
  \<open>connect\<close> to that address returns (it raises otherwise, and \<open>add_p2p\<close> catches it).
\<close>

type_synonym sock = nat

record 'addr net_env =
  py_int :: "string \<Rightarrow> int option"
  getaddrinfo :: "string \<Rightarrow> string \<Rightarrow> 'addr option"
  connect_ok :: "'addr \<Rightarrow> bool"

record tcp_bridge =
  sockets :: "sock list"
  socket2remote :: "sock \<rightharpoonup> sock"
  socket2hostintf :: "sock \<rightharpoonup> string"
  connected :: "sock set"
  next_socket :: nat

definition TcpBridge_init :: tcp_bridge where
  "TcpBridge_init = \<lparr>sockets = [], socket2remote = Map.empty, socket2hostintf = Map.empty,
                      connected = {}, next_socket = 0\<rparr>"

text \<open>\<open>a, b = xs\<close>: ValueError unless \<open>xs\<close> has exactly two elements.\<close>

definition unpack2 :: "'a list \<Rightarrow> py_error + ('a \<times> 'a)" where
  "unpack2 xs = (case xs of [a, b] \<Rightarrow> Inr (a, b) | _ \<Rightarrow> Inl ValueError)"

definition hostintf2addr :: "'addr net_env \<Rightarrow> string \<Rightarrow> py_error + 'addr" where
  "hostintf2addr env hostintf =
     (case unpack2 (py_split ''/'' hostintf) of
        Inl e \<Rightarrow> Inl e
      | Inr (hostname, interface) \<Rightarrow>
          (case py_int env interface of
             None \<Rightarrow> Inl ValueError
           | Some n \<Rightarrow>
               (case getaddrinfo env hostname (''100'' @ py_fmt_02d n) of
                  None \<Rightarrow> Inl NoVR
                | Some sockaddr \<Rightarrow> Inr sockaddr)))"

text \<open>
  \<open>add_p2p\<close>, lines 131 to 136: splitting the edge and resolving both ends. Every
  exception of \<open>add_p2p\<close> is raised here, before the first assignment to the bridge.
  The result is the two labels and the two addresses.
\<close>

definition add_p2p_resolve ::
  "'addr net_env \<Rightarrow> string \<Rightarrow> py_error + ((string \<times> string) \<times> 'addr \<times> 'addr)" where
  "add_p2p_resolve env p2p =
     (case unpack2 (py_split ''--'' p2p) of
        Inl e \<Rightarrow> Inl e
      | Inr (source, destination) \<Rightarrow>
     (case unpack2 (py_split ''/'' source) of
        Inl e \<Rightarrow> Inl e
      | Inr (src_router, src_interface) \<Rightarrow>
     (case unpack2 (py_split ''/'' destination) of
        Inl e \<Rightarrow> Inl e
      | Inr (dst_router, dst_interface) \<Rightarrow>
     (case hostintf2addr env source of
        Inl e \<Rightarrow> Inl e
      | Inr src \<Rightarrow>
     (case hostintf2addr env destination of
        Inl e \<Rightarrow> Inl e
      | Inr dst \<Rightarrow>
          Inr ((src_router @ ''/'' @ src_interface, dst_router @ ''/'' @ dst_interface),
               src, dst))))))"

text \<open>
  \<open>try: sk.connect(addr) except: log\<close>, and \<open>add_p2p\<close> from line 138 on: the two new
  sockets, their labels, the two connect attempts, the list and the peer dictionary.
\<close>

definition try_connect :: "'addr net_env \<Rightarrow> sock \<Rightarrow> 'addr \<Rightarrow> tcp_bridge \<Rightarrow> tcp_bridge" where
  "try_connect env sk addr b =
     (if connect_ok env addr then b\<lparr>connected := insert sk (connected b)\<rparr> else b)"

definition add_p2p_register ::
  "'addr net_env \<Rightarrow> (string \<times> string) \<times> 'addr \<times> 'addr \<Rightarrow> tcp_bridge \<Rightarrow> tcp_bridge" where
  "add_p2p_register env edge b =
     (case edge of ((src_label, dst_label), src, dst) \<Rightarrow>
        let left = next_socket b;
            right = next_socket b + 1;
            b = b\<lparr>next_socket := next_socket b + 2\<rparr>;
            b = b\<lparr>socket2hostintf := (socket2hostintf b)(left \<mapsto> src_label)\<rparr>;
            b = b\<lparr>socket2hostintf := (socket2hostintf b)(right \<mapsto> dst_label)\<rparr>;
            b = try_connect env left src b;
            b = try_connect env right dst b;
            b = b\<lparr>sockets := sockets b @ [left]\<rparr>;
            b = b\<lparr>sockets := sockets b @ [right]\<rparr>;
            b = b\<lparr>socket2remote := (socket2remote b)(left \<mapsto> right)\<rparr>;
            b = b\<lparr>socket2remote := (socket2remote b)(right \<mapsto> left)\<rparr>
        in b)"

definition add_p2p :: "'addr net_env \<Rightarrow> string \<Rightarrow> tcp_bridge \<Rightarrow> py_error + tcp_bridge" where
  "add_p2p env p2p b =
     (case add_p2p_resolve env p2p of
        Inl e \<Rightarrow> Inl e
      | Inr edge \<Rightarrow> Inr (add_p2p_register env edge b))"

text \<open>
  A sequence of calls, each with its own network answers. A call that raises has not
  changed the bridge, and the next call finds it as it was.
\<close>

fun add_p2ps :: "('addr net_env \<times> string) list \<Rightarrow> tcp_bridge \<Rightarrow> tcp_bridge" where
  "add_p2ps [] b = b"
| "add_p2ps ((env, p2p) # calls) b =
     (case add_p2p env p2p b of Inl e \<Rightarrow> add_p2ps calls b | Inr b' \<Rightarrow> add_p2ps calls b')"

text \<open>
  The properties of the bridge: every registered socket has a registered peer whose
  peer it is; every registered socket has a label; every registered socket was made
  before the next one to come.
\<close>

definition peers_ok :: "tcp_bridge \<Rightarrow> bool" where
  "peers_ok b = list_all (\<lambda>s. case socket2remote b s of
        None \<Rightarrow> False
      | Some r \<Rightarrow> r \<in> set (sockets b) \<and> socket2remote b r = Some s) (sockets b)"

definition labelled :: "tcp_bridge \<Rightarrow> bool" where
  "labelled b = list_all (\<lambda>s. socket2hostintf b s \<noteq> None) (sockets b)"

definition fresh_ok :: "tcp_bridge \<Rightarrow> bool" where
  "fresh_ok b = list_all (\<lambda>s. s < next_socket b) (sockets b)"

text \<open>What an edge registers on a bridge \<open>b\<close>, giving \<open>b'\<close>.\<close>

definition registered :: "string \<Rightarrow> string \<Rightarrow> tcp_bridge \<Rightarrow> tcp_bridge \<Rightarrow> bool" where
  "registered src_label dst_label b b' =
     (let left = next_socket b; right = next_socket b + 1
      in sockets b' = sockets b @ [left, right] \<and>
         socket2remote b' = (socket2remote b)(left \<mapsto> right, right \<mapsto> left) \<and>
         socket2hostintf b' = (socket2hostintf b)(left \<mapsto> src_label, right \<mapsto> dst_label))"

text \<open>A resolver that knows every host, and interface 1 only.\<close>

definition example_env :: "(string \<times> string) net_env" where
  "example_env = \<lparr>py_int = (\<lambda>s. if s = ''1'' then Some 1 else None),
                  getaddrinfo = (\<lambda>host port. Some (host, port)),
                  connect_ok = (\<lambda>a. True)\<rparr>"

section \<open>Properties\<close>

subsection \<open>Formatting\<close>

lemma digit_char_less_16:
  "d < 16 \<Longrightarrow> digit_char d \<in> set ''0123456789abcdef''"
  unfolding digit_char_def by (rule nth_mem) simp

lemma hex_digit_val_digit_char:
  assumes "d < 16"
  shows "hex_digit_val (digit_char d) = Some (int d)"
proof -
  have "d \<in> {0,1,2,3,4,5,6,7,8,9,10,11,12,13,14,15}"
    using assms by (simp only: insert_iff empty_iff) arith
  then show ?thesis
    by (auto simp: hex_digit_val_def digit_char_def)
qed

lemma digit_char_not_colon:
  assumes "d < 16"
  shows "digit_char d \<noteq> CHR '':''"
  using digit_char_less_16 [OF assms] by auto

lemma py_fmt_02x_byte:
  assumes "0 \<le> i" "i < 256"
  shows "py_fmt_02x i = [digit_char (nat i div 16), digit_char (nat i mod 16)]"
proof (cases "nat i < 16")
  case True
  with assms show ?thesis
    by (simp add: py_fmt_02x_def zero_pad2_def fmt_x.simps [of "nat i"] digit_char_def)
next
  case False
  with assms have "nat i div 16 < 16" by simp
  with False assms show ?thesis
    by (simp add: py_fmt_02x_def zero_pad2_def fmt_x.simps [of "nat i"]
          fmt_x.simps [of "nat i div 16"])
qed

lemma hex_val_py_fmt_02x:
  assumes "0 \<le> i" "i < 256"
  shows "hex_val (py_fmt_02x i) = Some i"
proof -
  have "nat i div 16 < 16" using assms by simp
  moreover have "16 * int (nat i div 16) + int (nat i mod 16) = i"
    using assms by (simp add: zdiv_int zmod_int)
  ultimately show ?thesis
    by (simp add: py_fmt_02x_byte [OF assms] hex_val_def hex_digit_val_digit_char)
qed

subsection \<open>\<open>gen_mac\<close>\<close>

lemma digit_char_colon_iff [simp]: "d < 16 \<Longrightarrow> (digit_char d = CHR '':'') = False"
  by (simp add: digit_char_not_colon)

lemma py_split_gen_mac:
  assumes "0 \<le> r1" "r1 < 256" "0 \<le> r2" "r2 < 256" "0 \<le> k" "k < 256"
  shows "py_split '':'' (gen_mac r1 r2 k) =
         [''52'', ''54'', ''00'', py_fmt_02x r1, py_fmt_02x r2, py_fmt_02x k]"
proof -
  have d: "nat r1 div 16 < 16" "nat r1 mod 16 < 16" "nat r2 div 16 < 16" "nat r2 mod 16 < 16"
    "nat k div 16 < 16" "nat k mod 16 < 16"
    using assms by simp_all
  show ?thesis
    using d by (simp add: py_split_def gen_mac_def py_fmt_02x_byte assms)
qed

text \<open>
  C8 (as amended). For every \<open>k\<close> in \<open>[0, 255]\<close> and every choice of the two random
  bytes \<open>r1\<close>, \<open>r2\<close> in \<open>[0, 255]\<close>, \<open>gen_mac\<close> returns six colon-separated octets of
  exactly two lowercase hex digits each: the OUI \<open>52:54:00\<close>, then \<open>r1\<close>, \<open>r2\<close>, and the
  last (sixth) octet equal to \<open>k\<close>.
\<close>

theorem gen_mac_octets:
  assumes "0 \<le> r1 \<and> r1 \<le> 255" "0 \<le> r2 \<and> r2 \<le> 255" "0 \<le> k \<and> k \<le> 255"
  shows "mac_octets (gen_mac r1 r2 k) =
           [Some 0x52, Some 0x54, Some 0x00, Some r1, Some r2, Some k] \<and>
         map length (py_split '':'' (gen_mac r1 r2 k)) = [2, 2, 2, 2, 2, 2]"
proof -
  have b: "0 \<le> r1" "r1 < 256" "0 \<le> r2" "r2 < 256" "0 \<le> k" "k < 256"
    using assms by simp_all
  have oui: "hex_val ''52'' = Some 0x52" "hex_val ''54'' = Some 0x54" "hex_val ''00'' = Some 0"
    by (simp_all add: hex_val_def hex_digit_val_def)
  have len: "length (py_fmt_02x r1) = 2" "length (py_fmt_02x r2) = 2"
    "length (py_fmt_02x k) = 2"
    by (simp_all add: py_fmt_02x_byte b)
  have "mac_octets (gen_mac r1 r2 k) =
      [Some 0x52, Some 0x54, Some 0x00, Some r1, Some r2, Some k]"
    by (simp add: mac_octets_def py_split_gen_mac [OF b] hex_val_py_fmt_02x b oui)
  moreover have "map length (py_split '':'' (gen_mac r1 r2 k)) = [2, 2, 2, 2, 2, 2]"
    by (simp add: py_split_gen_mac [OF b] len)
  ultimately show ?thesis by simp
qed

theorem gen_mac_octets_witness:
  "gen_mac 171 205 7 = ''52:54:00:ab:cd:07'' \<and>
   mac_octets (gen_mac 171 205 7) =
     [Some 0x52, Some 0x54, Some 0x00, Some 171, Some 205, Some 7] \<and>
   map length (py_split '':'' (gen_mac 171 205 7)) = [2, 2, 2, 2, 2, 2]"
proof -
  have "gen_mac 171 205 7 = ''52:54:00:ab:cd:07''"
    by (simp add: gen_mac_def py_fmt_02x_def zero_pad2_def fmt_x.simps digit_char_def)
  with gen_mac_octets [of 171 205 7] show ?thesis by simp
qed

text \<open>
  C8 as stated asks the third octet to equal the requested last octet. With last octet 1
  the address is \<open>52:54:00:00:00:01\<close>: its third octet is \<open>00\<close>, part of the OUI.
\<close>

theorem gen_mac_third_octet_counterexample:
  "gen_mac 0 0 1 = ''52:54:00:00:00:01'' \<and>
   mac_octets (gen_mac 0 0 1) ! 2 = Some 0 \<and>
   mac_octets (gen_mac 0 0 1) ! 2 \<noteq> Some 1"
proof -
  have m: "gen_mac 0 0 1 = ''52:54:00:00:00:01''"
    by (simp add: gen_mac_def py_fmt_02x_def zero_pad2_def fmt_x.simps digit_char_def)
  have "mac_octets ''52:54:00:00:00:01'' ! 2 = Some 0"
    by (simp add: mac_octets_def py_split_def hex_val_def hex_digit_val_def)
  with m show ?thesis by simp
qed

subsection \<open>\<open>uuid_rev_part\<close>\<close>

lemma uuid_rev_loop_in_range:
  assumes "\<forall>i \<in> set is. i + 1 < length part"
  shows "uuid_rev_loop part is res =
         Inr (res @ concat (map (\<lambda>i. [part ! i, part ! (i + 1)]) is))"
  using assms by (induction "is" arbitrary: res) simp_all

lemma pairs_eq_chunks2:
  "even (length x) \<Longrightarrow>
   map (\<lambda>k. [x ! (2 * k), x ! (2 * k + 1)]) [0 ..< length x div 2] = chunks2 x"
proof (induction x rule: chunks2.induct)
  case (1 a b xs)
  have "[0 ..< Suc (length xs div 2)] = 0 # map Suc [0 ..< length xs div 2]"
    by (simp add: upt_conv_Cons map_Suc_upt del: upt_Suc)
  with 1 show ?case by (simp add: comp_def del: upt_Suc)
qed simp_all

lemma concat_chunks2: "even (length x) \<Longrightarrow> concat (chunks2 x) = x"
  by (induction x rule: chunks2.induct) simp_all

lemma chunks2_length: "c \<in> set (chunks2 x) \<Longrightarrow> length c = 2"
  by (induction x rule: chunks2.induct) auto

lemma chunks2_concat:
  "\<forall>c \<in> set cs. length c = 2 \<Longrightarrow> chunks2 (concat cs) = cs"
proof (induction cs)
  case (Cons c cs)
  then obtain a b where "c = [a, b]"
    by (cases c; cases "tl c") (auto simp: length_Suc_conv)
  with Cons show ?case by simp
qed simp

lemma even_length_concat:
  "\<forall>c \<in> set cs. length c = 2 \<Longrightarrow> even (length (concat cs))"
  by (induction cs) simp_all

lemma uuid_rev_part_even:
  assumes "even (length x)"
  shows "uuid_rev_part x = Inr (concat (rev (chunks2 x)))"
proof -
  from assms have half: "Suc (length x) div 2 = length x div 2" by presburger
  have "\<forall>i \<in> set (rev (range_step2 (length x))). i + 1 < length x"
    using assms by (auto simp: range_step2_def half)
  then have "uuid_rev_part x =
      Inr (concat (map (\<lambda>i. [x ! i, x ! (i + 1)]) (rev (range_step2 (length x)))))"
    by (simp add: uuid_rev_part_def uuid_rev_loop_in_range)
  also have "map (\<lambda>i. [x ! i, x ! (i + 1)]) (rev (range_step2 (length x))) =
      rev (map (\<lambda>k. [x ! (2 * k), x ! (2 * k + 1)]) [0 ..< length x div 2])"
    by (simp add: range_step2_def half rev_map comp_def)
  finally show ?thesis unfolding pairs_eq_chunks2 [OF assms] .
qed

text \<open>
  C9. \<open>uuid_rev_part\<close> is an involution on strings of even length: on such a string the
  first call returns (raises nothing), the second call on its result returns too, and
  gives the original string back.
\<close>

theorem uuid_rev_part_involution:
  assumes "even (length x)"
  shows "\<exists>y. uuid_rev_part x = Inr y \<and> uuid_rev_part y = Inr x"
proof -
  let ?y = "concat (rev (chunks2 x))"
  have two: "\<forall>c \<in> set (rev (chunks2 x)). length c = 2"
    by (simp add: chunks2_length)
  have "uuid_rev_part ?y = Inr (concat (rev (chunks2 ?y)))"
    by (rule uuid_rev_part_even) (rule even_length_concat [OF two])
  also have "chunks2 ?y = rev (chunks2 x)"
    by (rule chunks2_concat [OF two])
  finally have "uuid_rev_part ?y = Inr x"
    by (simp add: concat_chunks2 [OF assms])
  with uuid_rev_part_even [OF assms] show ?thesis by simp
qed

theorem uuid_rev_part_involution_witness:
  "even (length ''78563412'') \<and>
   uuid_rev_part ''78563412'' = Inr ''12345678'' \<and>
   uuid_rev_part ''12345678'' = Inr ''78563412''"
proof -
  have e: "even (length ''78563412'')" by simp
  have v: "uuid_rev_part ''78563412'' = Inr ''12345678''"
    by (simp add: uuid_rev_part_def range_step2_def upt_rec_numeral)
  from uuid_rev_part_involution [OF e] v e show ?thesis by auto
qed

subsection \<open>The \<open>Tcp2Tap\<close> framer\<close>

lemma tap_bytes_append: "tap_bytes (a @ b) = tap_bytes a + tap_bytes b"
  by (induction a rule: tap_bytes.induct) simp_all

lemma headers_parsed_append: "headers_parsed (a @ b) = headers_parsed a + headers_parsed b"
  by (induction a rule: headers_parsed.induct) simp_all

lemma parse_iter_total:
  assumes "parse_iter h t ev = ((t', ev'), b)"
  shows "framer_total t' ev' = framer_total t ev"
  using assms
  by (auto simp: parse_iter_def framer_total_def Let_def tap_bytes_append
        headers_parsed_append split: if_splits)

lemma parse_loop_total:
  "parse_loop h t ev = (t', ev') \<Longrightarrow> framer_total t' ev' = framer_total t ev"
proof (induction h t ev rule: parse_loop.induct)
  case (1 h t ev)
  obtain t1 ev1 b where it: "parse_iter h t ev = ((t1, ev1), b)"
    by (metis prod.exhaust)
  show ?case
  proof (cases b)
    case True
    with it "1.prems" have "t' = t1" "ev' = ev1"
      by (simp_all add: parse_loop.simps [of h t ev])
    with it show ?thesis by (simp add: parse_iter_total)
  next
    case False
    with it "1.prems" have "parse_loop h t1 ev1 = (t', ev')"
      by (simp add: parse_loop.simps [of h t ev])
    with "1.IH" it False have "framer_total t' ev' = framer_total t1 ev1" by simp
    with it show ?thesis by (simp add: parse_iter_total)
  qed
qed

lemma tcp_readable_total:
  assumes "tcp_readable h t buf = (t', ev')"
  shows "framer_total t' ev' = length (tcp_buf t) + length buf"
  using parse_loop_total [OF assms [unfolded tcp_readable_def]]
  by (simp add: framer_total_def)

lemma tcp_reads_total:
  "tcp_reads h t bufs = (t', ev') \<Longrightarrow>
   framer_total t' ev' = length (tcp_buf t) + bytes_received bufs"
proof (induction bufs arbitrary: t t' ev')
  case Nil
  then show ?case by (auto simp: framer_total_def bytes_received_def)
next
  case (Cons buf bufs)
  obtain t1 ev1 where r1: "tcp_readable h t buf = (t1, ev1)" by (metis prod.exhaust)
  obtain t2 ev2 where r2: "tcp_reads h t1 bufs = (t2, ev2)" by (metis prod.exhaust)
  from Cons.prems r1 r2 have e: "t' = t2" "ev' = ev1 @ ev2" by simp_all
  from Cons.IH [OF r2] tcp_readable_total [OF r1] show ?case
    by (simp add: e framer_total_def tap_bytes_append headers_parsed_append
          bytes_received_def)
qed

text \<open>
  Whatever the byte order of the host, \<open>ntohl\<close> of the unpacked four bytes is their
  value as an unsigned big-endian integer.
\<close>

lemma byte_mod_256: "a < 256 \<Longrightarrow> (a + 256 * y) mod 256 = (a::nat)"
  by simp

lemma byte_div_256: "a < 256 \<Longrightarrow> (a + 256 * y) div 256 = (y::nat)"
  by simp

lemma ntohl_unpack_I:
  "ntohl h (unpack_I h [b0, b1, b2, b3]) =
     16777216 * unat b0 + 65536 * unat b1 + 256 * unat b2 + unat b3"
proof (cases h)
  case BigEndian
  then show ?thesis by (simp add: ntohl_def unpack_I_def)
next
  case LittleEndian
  define x3 where "x3 = unat b3"
  define x2 where "x2 = unat b2 + 256 * x3"
  define x1 where "x1 = unat b1 + 256 * x2"
  define x where "x = unat b0 + 256 * x1"
  have lt: "unat b0 < 256" "unat b1 < 256" "unat b2 < 256" "unat b3 < 256"
    using unsigned_less [of b0] unsigned_less [of b1] unsigned_less [of b2] unsigned_less [of b3]
    by simp_all
  have m0: "x mod 256 = unat b0" unfolding x_def by (rule byte_mod_256 [OF lt(1)])
  have d1: "x div 256 = x1" unfolding x_def by (rule byte_div_256 [OF lt(1)])
  have m1: "x1 mod 256 = unat b1" unfolding x1_def by (rule byte_mod_256 [OF lt(2)])
  have d2: "x1 div 256 = x2" unfolding x1_def by (rule byte_div_256 [OF lt(2)])
  have m2: "x2 mod 256 = unat b2" unfolding x2_def by (rule byte_mod_256 [OF lt(3)])
  have d3: "x2 div 256 = x3" unfolding x2_def by (rule byte_div_256 [OF lt(3)])
  have e2: "x div 65536 = x2"
  proof -
    have "x div (256 * 256) = x div 256 div 256" by (rule div_mult2_eq)
    then show ?thesis by (simp add: d1 d2)
  qed
  have e3: "x div 16777216 = x3"
  proof -
    have "x div (65536 * 256) = x div 65536 div 256" by (rule div_mult2_eq)
    then show ?thesis by (simp add: e2 d3)
  qed
  have "x3 < 256" using lt by (simp add: x3_def)
  then have "byteswap32 x = 16777216 * unat b0 + 65536 * unat b1 + 256 * unat b2 + unat b3"
    by (simp add: byteswap32_def m0 d1 m1 e2 m2 e3 x3_def)
  moreover have "unpack_I LittleEndian [b0, b1, b2, b3] = x"
    by (simp add: unpack_I_def x_def x1_def x2_def x3_def)
  ultimately show ?thesis using LittleEndian by (simp add: ntohl_def)
qed

text \<open>
  C5. The parse loop is a total function (its termination is proved with the
  definition), and for every byte order and every sequence of TCP reads fed to a fresh
  framer, the bytes left in \<open>tcp_buf\<close> plus the bytes written to the TAP equal the bytes
  received minus 4 for each length header parsed.
\<close>

theorem framer_conservation:
  "int (length (tcp_buf (fst (tcp_reads h tcp2tap_init bufs)))) +
   int (tap_bytes (snd (tcp_reads h tcp2tap_init bufs))) =
   int (bytes_received bufs) - 4 * int (headers_parsed (snd (tcp_reads h tcp2tap_init bufs)))"
proof -
  obtain t' ev' where r: "tcp_reads h tcp2tap_init bufs = (t', ev')" by (metis prod.exhaust)
  have "length (tcp_buf t') + tap_bytes ev' + 4 * headers_parsed ev' = bytes_received bufs"
    using tcp_reads_total [OF r] by (simp add: framer_total_def tcp2tap_init_def)
  then show ?thesis unfolding r fst_conv snd_conv by linarith
qed

text \<open>
  C4. A fresh framer that reads \<open>00 00 00 04 DE AD BE EF\<close> in one \<open>recv\<close> parses one
  header of size 4, writes exactly \<open>DE AD BE EF\<close> to the TAP, and is left as it started:
  reading the size, with an empty buffer. This holds on hosts of either byte order.
\<close>

theorem framer_single_frame:
  "tcp_readable h tcp2tap_init [0x00, 0x00, 0x00, 0x04, 0xDE, 0xAD, 0xBE, 0xEF] =
     (tcp2tap_init, [PktSize 4, TapWrite [0xDE, 0xAD, 0xBE, 0xEF]])"
proof -
  let ?t0 = "tcp2tap_init\<lparr>tcp_buf := tcp_buf tcp2tap_init @
      [0x00, 0x00, 0x00, 0x04, 0xDE, 0xAD, 0xBE, 0xEF]\<rparr>"
  let ?ev = "[PktSize 4, TapWrite [0xDE, 0xAD, 0xBE, 0xEF]]"
  have sz: "ntohl h (unpack_I h [0x00, 0x00, 0x00, 0x04]) = 4"
    by (cases h) (simp_all add: ntohl_def unpack_I_def byteswap32_def)
  have i1: "parse_iter h ?t0 [] = ((tcp2tap_init, ?ev), False)"
    by (simp add: parse_iter_def sz tcp2tap_init_def)
  have i2: "parse_iter h tcp2tap_init ?ev = ((tcp2tap_init, ?ev), True)"
    by (simp add: parse_iter_def tcp2tap_init_def)
  have "parse_loop h ?t0 [] = parse_loop h tcp2tap_init ?ev"
    by (subst parse_loop.simps) (simp add: i1)
  also have "\<dots> = (tcp2tap_init, ?ev)"
    by (subst parse_loop.simps) (simp add: i2)
  finally show ?thesis by (simp add: tcp_readable_def)
qed

subsection \<open>The supervision loop\<close>

lemma all_running_loop_eq: "all_running_loop acc vms = (acc \<and> all_vms_running vms)"
  by (induction vms arbitrary: acc) (auto simp: all_vms_running_def)

lemma update_health_values:
  "update_health 0 ''running'' = ''0 running''"
  "update_health 1 ''VM failed - restarting'' = ''1 VM failed - restarting''"
  "update_health 1 ''starting'' = ''1 starting''"
  by (simp_all add: update_health_def py_fmt_d_def fmt_d.simps digit_char_def)

lemma supervise_pass_eq:
  "supervise_pass started vms =
     (if all_vms_running vms then (''0 running'', True)
      else if started then (''1 VM failed - restarting'', True)
      else (''1 starting'', False))"
  by (simp add: supervise_pass_def all_running_loop_eq update_health_values)

lemma length_supervise: "length (supervise s passes) = length passes"
  by (induction passes arbitrary: s) (simp_all add: supervise_pass_eq)

lemma supervise_nth:
  "n < length passes \<Longrightarrow>
   supervise s passes ! n =
     (if all_vms_running (passes ! n) then ''0 running''
      else if s \<or> list_ex all_vms_running (take n passes) then ''1 VM failed - restarting''
      else ''1 starting'')"
proof (induction passes arbitrary: s n)
  case Nil
  then show ?case by simp
next
  case (Cons vms passes)
  show ?case
  proof (cases n)
    case 0
    then show ?thesis by (simp add: supervise_pass_eq)
  next
    case (Suc m)
    with Cons.prems have m: "m < length passes" by simp
    show ?thesis
      using Cons.IH [OF m] by (simp add: Suc supervise_pass_eq)
  qed
qed

lemma VR_start_nth:
  "n < length passes \<Longrightarrow> VR_start passes ! n = expected_health passes n"
  by (simp add: VR_start_def supervise_nth expected_health_def)

lemma first_index_Some_iff:
  "first_index P xs = Some n \<longleftrightarrow>
     n < length xs \<and> P (xs ! n) \<and> \<not> list_ex P (take n xs)"
proof (induction xs arbitrary: n)
  case Nil
  then show ?case by simp
next
  case (Cons x xs)
  show ?case
  proof (cases n)
    case 0
    then show ?thesis by auto
  next
    case (Suc m)
    then show ?thesis using Cons.IH [of m] by auto
  qed
qed

lemma filter_eq_upt:
  "filter (\<lambda>n. n = k) [a ..< b] = (if a \<le> k \<and> k < b then [k] else [])"
  by (induction b) auto

lemma transition_iff:
  assumes "1 \<le> n" "n < length passes"
  shows "(VR_start passes ! (n - 1) = ''1 starting'' \<and> VR_start passes ! n = ''0 running'')
         \<longleftrightarrow> first_index all_vms_running passes = Some n"
proof -
  obtain m where n: "n = Suc m" using assms by (cases n) auto
  have tk: "take (Suc m) passes = take m passes @ [passes ! m]"
    using assms n by (simp add: take_Suc_conv_app_nth)
  show ?thesis
    using assms
    by (auto simp: n VR_start_nth expected_health_def first_index_Some_iff tk
        split: if_splits)
qed

text \<open>
  C6 (as amended). On every pass the supervisor writes \<open>0 running\<close> if every VM reports
  running on that pass, \<open>1 starting\<close> if not and no earlier pass had all VMs running,
  and \<open>1 VM failed - restarting\<close> if not but an earlier pass had. The step from
  \<open>1 starting\<close> to \<open>0 running\<close> happens at most once: it happens at pass \<open>n\<close> exactly
  when \<open>n\<close> is the first pass in which all VMs are running and \<open>n\<close> is not the very first
  pass; when no pass has all VMs running, or the very first one has, it does not happen.
\<close>

theorem health_each_pass:
  "VR_start passes = map (expected_health passes) [0 ..< length passes] \<and>
   start_transitions (VR_start passes) =
     (case first_index all_vms_running passes of
        Some (Suc n) \<Rightarrow> [Suc n]
      | _ \<Rightarrow> [])"
proof
  show "VR_start passes = map (expected_health passes) [0 ..< length passes]"
    by (rule nth_equalityI) (simp_all add: VR_start_def length_supervise VR_start_nth [unfolded VR_start_def])
next
  have len: "length (VR_start passes) = length passes"
    by (simp add: VR_start_def length_supervise)
  have "start_transitions (VR_start passes) =
      filter (\<lambda>n. first_index all_vms_running passes = Some n) [1 ..< length passes]"
    unfolding start_transitions_def len
  proof (rule filter_cong [OF refl])
    fix n
    assume "n \<in> set [1 ..< length passes]"
    then have "1 \<le> n" "n < length passes" by simp_all
    from transition_iff [OF this]
    show "(VR_start passes ! (n - 1) = ''1 starting'' \<and> VR_start passes ! n = ''0 running'') =
          (first_index all_vms_running passes = Some n)" .
  qed
  also have "\<dots> = (case first_index all_vms_running passes of
        Some (Suc n) \<Rightarrow> [Suc n] | _ \<Rightarrow> [])"
  proof (cases "first_index all_vms_running passes")
    case None
    then show ?thesis by simp
  next
    case (Some k)
    then have "k < length passes" by (simp add: first_index_Some_iff)
    moreover have "filter (\<lambda>n. Some k = Some n) [1 ..< length passes] =
        filter (\<lambda>n. n = k) [1 ..< length passes]"
      by (rule filter_cong) auto
    ultimately show ?thesis using Some
      by (cases k) (simp_all add: filter_eq_upt)
  qed
  finally show "start_transitions (VR_start passes) =
     (case first_index all_vms_running passes of Some (Suc n) \<Rightarrow> [Suc n] | _ \<Rightarrow> [])" .
qed

theorem health_each_pass_witness:
  "VR_start [[False, True], [True, True], [True, False], [True, True]] =
     [''1 starting'', ''0 running'', ''1 VM failed - restarting'', ''0 running''] \<and>
   start_transitions (VR_start [[False, True], [True, True], [True, False], [True, True]]) = [1]"
  using health_each_pass [of "[[False, True], [True, True], [True, False], [True, True]]"]
  by (simp add: expected_health_def all_vms_running_def start_transitions_def upt_rec_numeral)

text \<open>
  C6 as stated has the step from \<open>1 starting\<close> to \<open>0 running\<close> happen exactly once. When
  the VMs are all running on the very first pass, the first content of \<open>/health\<close> is
  \<open>0 running\<close> and the step never happens; neither does it while a VM keeps failing to
  boot.
\<close>

theorem health_transition_counterexample:
  "VR_start [[True]] = [''0 running''] \<and>
   first_index all_vms_running [[True]] = Some 0 \<and>
   start_transitions (VR_start [[True]]) = [] \<and>
   VR_start [[False], [False]] = [''1 starting'', ''1 starting''] \<and>
   start_transitions (VR_start [[False], [False]]) = []"
  by (simp add: VR_start_def supervise_pass_eq all_vms_running_def start_transitions_def)

subsection \<open>Port numbers in the emulator arguments\<close>

lemma digit_char_0: "digit_char 0 = CHR ''0''"
  by (simp add: digit_char_def)

lemma fmt_d_two_digits:
  assumes "n < 100"
  shows "zero_pad2 (fmt_d n) = [digit_char (n div 10), digit_char (n mod 10)]"
proof (cases "n < 10")
  case True
  then show ?thesis by (simp add: zero_pad2_def fmt_d.simps [of n] digit_char_0)
next
  case False
  with assms have "n div 10 < 10" by simp
  with False show ?thesis
    by (simp add: zero_pad2_def fmt_d.simps [of n] fmt_d.simps [of "n div 10"])
qed

lemma fmt_d_100: "fmt_d 100 = ''100''"
  by (simp add: fmt_d.simps digit_char_def)

lemma fmt_d_50: "fmt_d 50 = ''50''"
  by (simp add: fmt_d.simps digit_char_def)

lemma fmt_d_prefix_two_digits:
  assumes "n < 100" "10 \<le> k"
  shows "fmt_d (100 * k + n) = fmt_d k @ [digit_char (n div 10), digit_char (n mod 10)]"
proof -
  have a: "(100 * k + n) div 10 = 10 * k + n div 10" by simp
  have "(100 * k + n) mod 10 = (10 * (10 * k) + n) mod 10" by simp
  also have "\<dots> = n mod 10" by (simp only: mod_mult_self4)
  finally have b: "(100 * k + n) mod 10 = n mod 10" .
  have c: "(10 * k + n div 10) div 10 = k" using assms by simp
  have "n div 10 < 10" using assms by simp
  then have d: "(10 * k + n div 10) mod 10 = n div 10" by simp
  have "fmt_d (100 * k + n) = fmt_d (10 * k + n div 10) @ [digit_char (n mod 10)]"
    using assms by (subst fmt_d.simps) (simp add: a b)
  also have "fmt_d (10 * k + n div 10) = fmt_d k @ [digit_char (n div 10)]"
    using assms by (subst fmt_d.simps) (simp add: c d)
  finally show ?thesis by simp
qed

lemma port_100xx:
  assumes "0 \<le> i" "i \<le> 99"
  shows "''100'' @ py_fmt_02d i = py_fmt_d (10000 + i)"
proof -
  have n: "nat i < 100" using assms by simp
  have "nat (10000 + i) = 100 * 100 + nat i" using assms by simp
  then have "fmt_d (nat (10000 + i)) =
      fmt_d 100 @ [digit_char (nat i div 10), digit_char (nat i mod 10)]"
    using fmt_d_prefix_two_digits [OF n, of 100] by simp
  with assms show ?thesis
    by (simp add: py_fmt_02d_def py_fmt_d_def fmt_d_two_digits [OF n] fmt_d_100)
qed

lemma port_50xx:
  assumes "0 \<le> s" "s \<le> 99"
  shows "''50'' @ py_fmt_02d s = py_fmt_d (5000 + s)"
proof -
  have n: "nat s < 100" using assms by simp
  have "nat (5000 + s) = 100 * 50 + nat s" using assms by simp
  then have "fmt_d (nat (5000 + s)) =
      fmt_d 50 @ [digit_char (nat s div 10), digit_char (nat s mod 10)]"
    using fmt_d_prefix_two_digits [OF n, of 50] by simp
  with assms show ?thesis
    by (simp add: py_fmt_02d_def py_fmt_d_def fmt_d_two_digits [OF n] fmt_d_50)
qed

lemma gen_nic_port:
  assumes "0 \<le> i" "i \<le> 99"
  shows "gen_nic t rnd i = nic_on_port t (gen_mac (fst (rnd i)) (snd (rnd i)) i) i"
  using port_100xx [OF assms] by (simp add: gen_nic_def nic_on_port_def)

lemma last_fmt_d: "fmt_d n \<noteq> [] \<and> last (fmt_d n) = digit_char (n mod 10)"
  by (subst (1 2) fmt_d.simps) simp

lemma digit_char_decimal: "d < 10 \<Longrightarrow> digit_char d \<in> set ''0123456789''"
proof -
  assume "d < 10"
  then have "d \<in> {0,1,2,3,4,5,6,7,8,9}"
    by (simp only: insert_iff empty_iff) arith
  then show ?thesis by (auto simp: digit_char_def)
qed

lemma py_fmt_d_not_serial: "py_fmt_d r \<noteq> ''-serial''"
proof
  assume e: "py_fmt_d r = ''-serial''"
  define n where "n = (if r < 0 then nat (- r) else nat r)"
  have "py_fmt_d r = fmt_d n \<or> py_fmt_d r = CHR ''-'' # fmt_d n"
    by (simp add: py_fmt_d_def n_def)
  with last_fmt_d [of n] have "last (py_fmt_d r) = digit_char (n mod 10)" by auto
  with e have "digit_char (n mod 10) = CHR ''l''" by simp
  moreover have "digit_char (n mod 10) \<in> set ''0123456789''"
    by (rule digit_char_decimal) simp
  ultimately show False by auto
qed

lemma arg_after_serial:
  "arg_after ''-serial'' (qemu_args (VM_init kvm img s ram)) =
     Some (''telnet:0.0.0.0:50'' @ py_fmt_02d s @ '',server,nowait'')"
  by (cases kvm) (simp_all add: VM_init_def insert_at_1_def py_fmt_d_not_serial)

lemma lc_indices:
  "map (\<lambda>j. 6 * (s - 1) + j + 1) [0 .. 5] = [6 * (s - 1) + 1 .. 6 * s]"
proof (rule nth_equalityI)
  show "length (map (\<lambda>j. 6 * (s - 1) + j + 1) [0 .. 5]) = length [6 * (s - 1) + 1 .. 6 * s]"
    by simp
next
  fix k
  assume "k < length (map (\<lambda>j. 6 * (s - 1) + j + 1) [0 .. 5])"
  then have k: "int k \<le> 5" by simp
  then have "[0 .. 5] ! k = 0 + int k" by (intro nth_upto) simp
  moreover have "[6 * (s - 1) + 1 .. 6 * s] ! k = 6 * (s - 1) + 1 + int k"
    using k by (intro nth_upto) simp
  ultimately show "map (\<lambda>j. 6 * (s - 1) + j + 1) [0 .. 5] ! k = [6 * (s - 1) + 1 .. 6 * s] ! k"
    using k by simp
qed

text \<open>
  C3 (as amended). For a VM with slot \<open>s\<close> in \<open>0..99\<close> the command line exposes the
  serial console on TCP port \<open>5000 + s\<close>. Every traffic NIC with index \<open>i\<close> in \<open>0..99\<close>
  is a listening TCP socket on port \<open>10000 + i\<close> whose netdev id, \<open>p\<close> followed by the
  two-digit \<open>i\<close>, is the id its \<open>-device\<close> argument references. \<open>VM.gen_nics\<close> generates
  the NICs \<open>1 .. num_nics - 1\<close>, and for a line card in slot \<open>s\<close>, with its six NICs,
  \<open>SROS_lc.gen_nics\<close> generates exactly the NICs \<open>6 * (s - 1) + 1 .. 6 * s\<close>.
\<close>

theorem emulator_ports:
  "(0 \<le> s \<and> s \<le> 99 \<longrightarrow>
      arg_after ''-serial'' (qemu_args (VM_init kvm img s ram)) =
        Some (''telnet:0.0.0.0:'' @ py_fmt_d (5000 + s) @ '',server,nowait'')) \<and>
   (0 \<le> i \<and> i \<le> 99 \<longrightarrow>
      gen_nic t rnd i = nic_on_port t (gen_mac (fst (rnd i)) (snd (rnd i)) i) i) \<and>
   VM_gen_nics rnd v = concat (map (gen_nic (nic_type v) rnd) [1 .. num_nics v - 1]) \<and>
   (num_nics lc = 6 \<longrightarrow>
      SROS_lc_gen_nics rnd lc =
        concat (map (gen_nic (nic_type lc) rnd) [6 * (slot lc - 1) + 1 .. 6 * slot lc]))"
proof (intro conjI impI)
  assume "0 \<le> s \<and> s \<le> 99"
  then have "''50'' @ py_fmt_02d s = py_fmt_d (5000 + s)" by (intro port_50xx) simp_all
  then show "arg_after ''-serial'' (qemu_args (VM_init kvm img s ram)) =
        Some (''telnet:0.0.0.0:'' @ py_fmt_d (5000 + s) @ '',server,nowait'')"
    by (simp add: arg_after_serial)
next
  assume "0 \<le> i \<and> i \<le> 99"
  then show "gen_nic t rnd i = nic_on_port t (gen_mac (fst (rnd i)) (snd (rnd i)) i) i"
    by (intro gen_nic_port) simp_all
next
  show "VM_gen_nics rnd v = concat (map (gen_nic (nic_type v) rnd) [1 .. num_nics v - 1])"
    by (simp add: VM_gen_nics_def)
next
  assume "num_nics lc = 6"
  then have "SROS_lc_gen_nics rnd lc =
      concat (map (gen_nic (nic_type lc) rnd) (map (\<lambda>j. 6 * (slot lc - 1) + j + 1) [0 .. 5]))"
    by (simp add: SROS_lc_gen_nics_def Let_def comp_def)
  then show "SROS_lc_gen_nics rnd lc =
        concat (map (gen_nic (nic_type lc) rnd) [6 * (slot lc - 1) + 1 .. 6 * slot lc])"
    by (simp only: lc_indices)
qed

theorem emulator_ports_witness:
  "arg_after ''-serial'' (qemu_args (VM_init False ''/sros.qcow2'' 3 6144)) =
     Some ''telnet:0.0.0.0:5003,server,nowait'' \<and>
   gen_nic ''e1000'' (\<lambda>i. (0, 0)) 7 =
     [''-device'', ''e1000,netdev=p07,mac=52:54:00:00:00:07'',
      ''-netdev'', ''socket,id=p07,listen=:10007''] \<and>
   SROS_lc_gen_nics (\<lambda>i. (0, 0))
     \<lparr>num = 2, running = False, spins = 0, nic_type = ''e1000'', num_nics = 6,
      qemu_args = [], sros_class = SROS_lc, slot = 2, num_lc = 0, newchassis = False\<rparr> =
     concat (map (gen_nic ''e1000'' (\<lambda>i. (0, 0))) [7, 8, 9, 10, 11, 12])"
proof -
  have u: "[7 .. 12] = [7, 8, 9, 10, 11, 12::int]"
    by (simp add: upto_rec1)
  have f: "py_fmt_d 5003 = ''5003''" "py_fmt_d 10007 = ''10007''"
    by (simp_all add: py_fmt_d_def fmt_d.simps digit_char_def)
  have p: "py_fmt_02d 7 = ''07''"
    by (simp add: py_fmt_02d_def zero_pad2_def fmt_d.simps digit_char_def)
  have m: "gen_mac 0 0 7 = ''52:54:00:00:00:07''"
    by (simp add: gen_mac_def py_fmt_02x_def zero_pad2_def fmt_x.simps digit_char_def)
  show ?thesis
    using emulator_ports [where s = 3 and kvm = False and img = "''/sros.qcow2''"
        and ram = 6144 and rnd = "\<lambda>i. (0, 0)" and i = 7 and t = "''e1000''"
        and v = "\<lparr>num = 0, running = False, spins = 0, nic_type = ''e1000'',
                  num_nics = 0, qemu_args = []\<rparr>"
        and lc = "\<lparr>num = 2, running = False, spins = 0, nic_type = ''e1000'', num_nics = 6,
                   qemu_args = [], sros_class = SROS_lc, slot = 2, num_lc = 0,
                   newchassis = False\<rparr>"]
    by (simp add: nic_on_port_def u f p m)
qed

text \<open>
  C3 as stated covers every slot and every NIC index. The ports are written as the
  text \<open>100\<close> (or \<open>50\<close>) followed by the number padded to two digits. For the line card
  in slot 17 the fourth NIC has index 100: its id is \<open>p100\<close> and its listen port reads
  \<open>100100\<close>, which is not \<open>10000 + 100\<close>. For a VM in slot 100 the serial port reads
  \<open>50100\<close>, which is not \<open>5000 + 100\<close>.
\<close>

theorem emulator_ports_counterexample:
  "SROS_lc_gen_nics (\<lambda>i. (0, 0))
     \<lparr>num = 17, running = False, spins = 0, nic_type = ''e1000'', num_nics = 6,
      qemu_args = [], sros_class = SROS_lc, slot = 17, num_lc = 0, newchassis = False\<rparr> ! 15 =
     ''socket,id=p100,listen=:100100'' \<and>
   ''socket,id=p100,listen=:100100'' \<noteq> ''socket,id=p100,listen=:'' @ py_fmt_d (10000 + 100) \<and>
   arg_after ''-serial'' (qemu_args (VM_init False ''/sros.qcow2'' 100 6144)) =
     Some ''telnet:0.0.0.0:50100,server,nowait'' \<and>
   ''telnet:0.0.0.0:50100,server,nowait'' \<noteq>
     ''telnet:0.0.0.0:'' @ py_fmt_d (5000 + 100) @ '',server,nowait''"
proof -
  have u: "[0 .. 5] = [0, 1, 2, 3, 4, 5::int]"
    by (simp add: upto_rec1)
  have g: "gen_nic ''e1000'' (\<lambda>i. (0, 0)) 100 ! 3 = ''socket,id=p100,listen=:100100''"
    by (simp add: gen_nic_def py_fmt_02d_def zero_pad2_def fmt_d.simps digit_char_def)
  have l: "length (gen_nic t r i) = 4" for t r i
    by (simp add: gen_nic_def)
  have f: "py_fmt_d (10000 + 100) = ''10100''" "py_fmt_d (5000 + 100) = ''5100''"
    by (simp_all add: py_fmt_d_def fmt_d.simps digit_char_def)
  have p: "py_fmt_02d 100 = ''100''"
    by (simp add: py_fmt_02d_def zero_pad2_def fmt_d.simps digit_char_def)
  have "SROS_lc_gen_nics (\<lambda>i. (0, 0))
     \<lparr>num = 17, running = False, spins = 0, nic_type = ''e1000'', num_nics = 6,
      qemu_args = [], sros_class = SROS_lc, slot = 17, num_lc = 0, newchassis = False\<rparr> ! 15 =
     gen_nic ''e1000'' (\<lambda>i. (0, 0)) 100 ! 3"
    by (simp add: SROS_lc_gen_nics_def u nth_append l)
  moreover have "arg_after ''-serial'' (qemu_args (VM_init False ''/sros.qcow2'' 100 6144)) =
     Some ''telnet:0.0.0.0:50100,server,nowait''"
    by (simp add: arg_after_serial p)
  ultimately show ?thesis using g f by simp
qed

text \<open>
  The NIC loop of \<open>XRV.start_vm\<close> is outside the statement above: its \<open>-device\<close>
  argument references the id of index \<open>i\<close> while the socket carries the id of \<open>i + 1\<close>.
\<close>

lemma XRV_gen_nic_ids:
  "XRV_gen_nic (\<lambda>i. (0, 0)) 0 =
     [''-device'', ''e1000,netdev=p00,mac=52:54:00:00:00:00,bus=pci.1,addr=0x1'',
      ''-netdev'', ''socket,id=p01,listen=:10001'']"
  by (simp add: XRV_gen_nic_def gen_mac_def py_fmt_02x_def py_fmt_02d_def py_fmt_d_def
      py_fmt_x_def zero_pad2_def fmt_d.simps fmt_x.simps digit_char_def)

subsection \<open>The listener of \<open>Tcp2Tap\<close>\<close>

text \<open>
  C1. The claim asks the listener to be bound to the port given to the constructor.
  Started with \<open>--tap-listen 2\<close>, the constructor is given 10002 and binds port 10001,
  the constant written in the call of \<open>bind\<close>.
\<close>

theorem tap_listen_port:
  "bind_port (listen_sock (xcon_tap_listen ''tap0'' 2)) = 10001 \<and>
   bind_port (listen_sock (xcon_tap_listen ''tap0'' 2)) \<noteq> 10000 + 2"
  by (simp add: xcon_tap_listen_def Tcp2Tap_init_def)

subsection \<open>The watchdog of the bootstrap spin\<close>

text \<open>
  C2 (as amended). When a bootstrap spin of the SR-OS variant finds the spin counter
  above 60, the VM is stopped and started again, the counter is reset to 0 and the spin
  returns with the VM not marked running, so that the next pass spins again. When a
  bootstrap spin of the IOS-XR variant finds the counter above 300 it gives up: it
  returns done and failed, touches neither the VM nor the counter, and the loop of
  \<open>XRV.start\<close> ends.
\<close>

theorem bootstrap_spin_watchdog:
  "(spins v > 60 \<longrightarrow>
      SROS_vm_bootstrap_spin extra cfg ex v =
        (v\<lparr>running := False, qemu_args := qemu_args v @ extra, spins := 0\<rparr>,
         [Stop, Start (qemu_args v @ extra)])) \<and>
   (xrv_spins x > 300 \<longrightarrow>
      XRV_bootstrap_spin cfg' ex' x = ((x, []), (True, False)) \<and>
      XRV_start_loop cfg' (ex' # exs) x ev = Some (x, ev, False))"
  by (simp add: SROS_vm_bootstrap_spin_def VM_stop_def VM_start_def XRV_bootstrap_spin_def)

theorem bootstrap_spin_watchdog_witness:
  "SROS_vm_bootstrap_spin [''-uuid'', ''0''] [] (0, False, [])
     \<lparr>num = 0, running = False, spins = 61, nic_type = ''e1000'', num_nics = 5,
      qemu_args = [''qemu-system-x86_64'']\<rparr> =
     (\<lparr>num = 0, running = False, spins = 0, nic_type = ''e1000'', num_nics = 5,
       qemu_args = [''qemu-system-x86_64'', ''-uuid'', ''0'']\<rparr>,
      [Stop, Start [''qemu-system-x86_64'', ''-uuid'', ''0'']]) \<and>
   XRV_start_loop [] [(0, False, [])] ((XRV_init ''u'' ''p'')\<lparr>xrv_spins := 301\<rparr>) [] =
     Some ((XRV_init ''u'' ''p'')\<lparr>xrv_spins := 301\<rparr>, [], False)"
  using bootstrap_spin_watchdog [where v = "\<lparr>num = 0, running = False, spins = 61,
        nic_type = ''e1000'', num_nics = 5, qemu_args = [''qemu-system-x86_64'']\<rparr>"
      and extra = "[''-uuid'', ''0'']" and cfg = "[]" and ex = "(0, False, [])"
      and x = "(XRV_init ''u'' ''p'')\<lparr>xrv_spins := 301\<rparr>" and cfg' = "[]"
      and ex' = "(0, False, [])" and exs = "[]" and ev = "[]"]
  by (simp add: XRV_init_def)

text \<open>
  C2 as stated has every variant kill and restart the VM and reset the counter. The
  IOS-XR spin with the counter at 301 produces no event at all and leaves the counter
  at 301.
\<close>

theorem bootstrap_spin_watchdog_counterexample:
  "XRV_bootstrap_spin [] (0, False, []) ((XRV_init ''u'' ''p'')\<lparr>xrv_spins := 301\<rparr>) =
     (((XRV_init ''u'' ''p'')\<lparr>xrv_spins := 301\<rparr>, []), (True, False)) \<and>
   snd (fst (XRV_bootstrap_spin [] (0, False, [])
     ((XRV_init ''u'' ''p'')\<lparr>xrv_spins := 301\<rparr>))) = [] \<and>
   xrv_spins (fst (fst (XRV_bootstrap_spin [] (0, False, [])
     ((XRV_init ''u'' ''p'')\<lparr>xrv_spins := 301\<rparr>)))) \<noteq> 0"
  by (simp add: XRV_bootstrap_spin_def XRV_init_def)

subsection \<open>The VMs of the SR-OS supervisor\<close>

lemma SROS_vm_init_raises: "SROS_vm_init kvm n ram = Inl TypeError"
  by (simp add: SROS_vm_init_def accepts_keywords_def VM_init_params_def)

lemma SROS_init_result:
  "SROS_init fc kvm license n nc =
     (if n > 5 \<and> \<not> license then Inl (SystemExit 1)
      else if n > 5 \<and> \<not> \<bar>n\<bar> < 2 ^ 53 then
        (case fc n of Inl e \<Rightarrow> Inl e | Inr num_lc_val \<Rightarrow> Inl TypeError)
      else Inl TypeError)"
  by (simp add: SROS_init_def ceil_div6_def SROS_cp_init_def SROS_integrated_init_def
      SROS_vm_init_raises split: sum.splits)

text \<open>
  C7. The claim has the supervisor instantiate one Integrated VM for up to 5 NICs, and
  a ControlPlane VM with the line cards when a license is present. With 5, 6 or 13
  NICs and a license the constructor instantiates no VM: the first VM constructor
  raises TypeError, since \<open>SROS_vm.__init__\<close> passes the keyword \<open>cpus\<close> to
  \<open>VM.__init__\<close>, which does not declare it. Only the exit with status 1, when more than
  5 NICs are asked without a license, is reached as the claim says.
\<close>

theorem SROS_init_raises:
  "SROS_init float_ceil kvm license 5 nc = Inl TypeError \<and>
   SROS_init float_ceil kvm True 6 nc = Inl TypeError \<and>
   SROS_init float_ceil kvm True 13 nc = Inl TypeError \<and>
   SROS_init float_ceil kvm False 6 nc = Inl (SystemExit 1)"
  by (simp add: SROS_init_result)

subsection \<open>The peer map of \<open>TcpBridge\<close>\<close>

lemma try_connect_fields [simp]:
  "sockets (try_connect env sk a b) = sockets b"
  "socket2remote (try_connect env sk a b) = socket2remote b"
  "socket2hostintf (try_connect env sk a b) = socket2hostintf b"
  "next_socket (try_connect env sk a b) = next_socket b"
  by (simp_all add: try_connect_def)

lemma add_p2p_register_registered:
  "registered sl dl b (add_p2p_register env ((sl, dl), src, dst) b) \<and>
   next_socket (add_p2p_register env ((sl, dl), src, dst) b) = next_socket b + 2"
  by (simp add: add_p2p_register_def registered_def Let_def)

lemma add_p2p_Inr:
  assumes "add_p2p env p2p b = Inr b'"
  shows "\<exists>src_label dst_label. registered src_label dst_label b b' \<and>
           next_socket b' = next_socket b + 2"
proof -
  from assms obtain sl dl src dst where
    "add_p2p_resolve env p2p = Inr ((sl, dl), src, dst)"
    "b' = add_p2p_register env ((sl, dl), src, dst) b"
    by (auto simp: add_p2p_def split: sum.splits)
  with add_p2p_register_registered [of sl dl b env src dst] show ?thesis by blast
qed

lemma add_p2p_inv:
  assumes "add_p2p env p2p b = Inr b'" "peers_ok b" "labelled b" "fresh_ok b"
  shows "peers_ok b' \<and> labelled b' \<and> fresh_ok b'"
proof -
  define L where "L = next_socket b"
  define R where "R = next_socket b + 1"
  from add_p2p_Inr [OF assms(1)] obtain sl dl where
    r: "registered sl dl b b'" and n: "next_socket b' = next_socket b + 2" by blast
  from r have sk: "sockets b' = sockets b @ [L, R]"
    and rm: "socket2remote b' = (socket2remote b)(L \<mapsto> R, R \<mapsto> L)"
    and hi: "socket2hostintf b' = (socket2hostintf b)(L \<mapsto> sl, R \<mapsto> dl)"
    by (simp_all add: registered_def Let_def L_def R_def)
  have LR: "L \<noteq> R" by (simp add: L_def R_def)
  have lt: "s \<noteq> L \<and> s \<noteq> R \<and> s < next_socket b" if "s \<in> set (sockets b)" for s
  proof -
    from assms(4) that have "s < next_socket b"
      unfolding fresh_ok_def list_all_iff by (rule bspec)
    then show ?thesis by (simp add: L_def R_def)
  qed
  have p: "\<exists>q. socket2remote b s = Some q \<and> q \<in> set (sockets b) \<and>
      socket2remote b q = Some s" if "s \<in> set (sockets b)" for s
  proof -
    from assms(2) that have c: "case socket2remote b s of None \<Rightarrow> False
        | Some r \<Rightarrow> r \<in> set (sockets b) \<and> socket2remote b r = Some s"
      unfolding peers_ok_def list_all_iff by (rule bspec)
    show ?thesis
    proof (cases "socket2remote b s")
      case None
      with c show ?thesis by simp
    next
      case (Some q)
      with c show ?thesis by simp
    qed
  qed
  have l: "socket2hostintf b s \<noteq> None" if "s \<in> set (sockets b)" for s
    using assms(3) that unfolding labelled_def list_all_iff by (rule bspec)
  have "peers_ok b'"
    unfolding peers_ok_def list_all_iff
  proof
    fix s assume "s \<in> set (sockets b')"
    then consider "s \<in> set (sockets b)" | "s = L" | "s = R"
      by (auto simp: sk)
    then show "case socket2remote b' s of None \<Rightarrow> False
        | Some r \<Rightarrow> r \<in> set (sockets b') \<and> socket2remote b' r = Some s"
    proof cases
      case 1
      from p [OF 1] obtain q where q: "socket2remote b s = Some q" "q \<in> set (sockets b)"
        "socket2remote b q = Some s" by blast
      from lt [OF 1] lt [OF q(2)] have "s \<noteq> L" "s \<noteq> R" "q \<noteq> L" "q \<noteq> R" by simp_all
      with q show ?thesis by (simp add: rm sk)
    next
      case 2
      with LR show ?thesis by (simp add: rm sk)
    next
      case 3
      with LR show ?thesis by (simp add: rm sk)
    qed
  qed
  moreover have "labelled b'"
    unfolding labelled_def list_all_iff
  proof
    fix s assume "s \<in> set (sockets b')"
    then consider "s \<in> set (sockets b)" | "s = L" | "s = R"
      by (auto simp: sk)
    then show "socket2hostintf b' s \<noteq> None"
      using l by cases (simp_all add: hi)
  qed
  moreover have "fresh_ok b'"
    unfolding fresh_ok_def list_all_iff
  proof
    fix s assume "s \<in> set (sockets b')"
    then consider "s \<in> set (sockets b)" | "s = L" | "s = R"
      by (auto simp: sk)
    then show "s < next_socket b'"
    proof cases
      case 1
      from lt [OF 1] show ?thesis by (simp add: n)
    qed (simp_all add: n L_def R_def)
  qed
  ultimately show ?thesis by blast
qed

lemma add_p2ps_inv:
  "peers_ok b \<Longrightarrow> labelled b \<Longrightarrow> fresh_ok b \<Longrightarrow>
   peers_ok (add_p2ps calls b) \<and> labelled (add_p2ps calls b) \<and> fresh_ok (add_p2ps calls b)"
proof (induction calls arbitrary: b)
  case Nil
  then show ?case by simp
next
  case (Cons c calls)
  obtain env p2p where c: "c = (env, p2p)" by (cases c)
  show ?case
  proof (cases "add_p2p env p2p b")
    case (Inl e)
    with Cons c show ?thesis by simp
  next
    case (Inr b')
    from add_p2p_inv [OF Inr Cons.prems] Cons.IH [of b'] Inr c show ?thesis by simp
  qed
qed

lemma init_inv: "peers_ok TcpBridge_init \<and> labelled TcpBridge_init \<and> fresh_ok TcpBridge_init"
  by (simp add: peers_ok_def labelled_def fresh_ok_def TcpBridge_init_def)

lemma hostintf2addr_connect [simp]:
  "hostintf2addr (env\<lparr>connect_ok := c\<rparr>) h = hostintf2addr env h"
  by (simp add: hostintf2addr_def cong: sum.case_cong option.case_cong prod.case_cong)

lemma add_p2p_resolve_connect [simp]:
  "add_p2p_resolve (env\<lparr>connect_ok := c\<rparr>) p2p = add_p2p_resolve env p2p"
  by (simp add: add_p2p_resolve_def cong: sum.case_cong prod.case_cong)

lemma add_p2p_connect_irrelevant:
  "map_sum id (\<lambda>b. (sockets b, socket2remote b, socket2hostintf b))
      (add_p2p (env\<lparr>connect_ok := c\<rparr>) p2p b) =
   map_sum id (\<lambda>b. (sockets b, socket2remote b, socket2hostintf b)) (add_p2p env p2p b)"
  by (simp add: add_p2p_def add_p2p_register_def Let_def try_connect_def split: sum.splits prod.splits)

text \<open>
  C10. After any sequence of \<open>add_p2p\<close> calls on a fresh bridge, every registered socket
  has a peer in \<open>socket2remote\<close>, the peer is registered and its own peer is the socket
  again, and every registered socket has a label. Whenever the edge parses and both
  endpoints resolve, \<open>add_p2p\<close> returns and registers the two sockets of the edge as
  mutual peers with their labels, whatever the two connect attempts do.
\<close>

theorem add_p2p_peer_map:
  "peers_ok (add_p2ps calls TcpBridge_init) \<and>
   labelled (add_p2ps calls TcpBridge_init) \<and>
   (add_p2p_resolve env p2p = Inr ((src_label, dst_label), src, dst) \<longrightarrow>
      (\<exists>b'. add_p2p (env\<lparr>connect_ok := c\<rparr>) p2p b = Inr b' \<and>
            registered src_label dst_label b b'))"
proof (intro conjI impI)
  from add_p2ps_inv [of TcpBridge_init calls] init_inv
  show "peers_ok (add_p2ps calls TcpBridge_init)" "labelled (add_p2ps calls TcpBridge_init)"
    by simp_all
next
  assume r: "add_p2p_resolve env p2p = Inr ((src_label, dst_label), src, dst)"
  have "add_p2p (env\<lparr>connect_ok := c\<rparr>) p2p b =
      Inr (add_p2p_register (env\<lparr>connect_ok := c\<rparr>) ((src_label, dst_label), src, dst) b)"
    by (simp add: add_p2p_def r)
  with add_p2p_register_registered [of src_label dst_label b "env\<lparr>connect_ok := c\<rparr>" src dst]
  show "\<exists>b'. add_p2p (env\<lparr>connect_ok := c\<rparr>) p2p b = Inr b' \<and>
            registered src_label dst_label b b'"
    by simp
qed

theorem add_p2p_peer_map_witness:
  "add_p2p_resolve example_env ''r1/1--r2/1'' =
     Inr ((''r1/1'', ''r2/1''), (''r1'', ''10001''), (''r2'', ''10001'')) \<and>
   add_p2p (example_env\<lparr>connect_ok := (\<lambda>a. False)\<rparr>) ''r1/1--r2/1'' TcpBridge_init =
     Inr \<lparr>sockets = [0, 1],
          socket2remote = [0 \<mapsto> 1, 1 \<mapsto> 0],
          socket2hostintf = [0 \<mapsto> ''r1/1'', 1 \<mapsto> ''r2/1''],
          connected = {}, next_socket = 2\<rparr> \<and>
   peers_ok (add_p2ps [(example_env\<lparr>connect_ok := (\<lambda>a. False)\<rparr>, ''r1/1--r2/1'')]
     TcpBridge_init)"
proof -
  have sp: "py_split ''--'' ''r1/1--r2/1'' = [''r1/1'', ''r2/1'']"
    "py_split ''/'' ''r1/1'' = [''r1'', ''1'']" "py_split ''/'' ''r2/1'' = [''r2'', ''1'']"
    by (simp_all add: py_split_def)
  have f: "py_fmt_02d 1 = ''01''"
    by (simp add: py_fmt_02d_def zero_pad2_def fmt_d.simps digit_char_def)
  have h: "hostintf2addr example_env ''r1/1'' = Inr (''r1'', ''10001'')"
    "hostintf2addr example_env ''r2/1'' = Inr (''r2'', ''10001'')"
    by (simp_all add: hostintf2addr_def sp unpack2_def example_env_def f)
  have r: "add_p2p_resolve example_env ''r1/1--r2/1'' =
     Inr ((''r1/1'', ''r2/1''), (''r1'', ''10001''), (''r2'', ''10001''))"
    by (simp add: add_p2p_resolve_def sp unpack2_def h)
  have a: "add_p2p (example_env\<lparr>connect_ok := (\<lambda>a. False)\<rparr>) ''r1/1--r2/1'' TcpBridge_init =
     Inr \<lparr>sockets = [0, 1],
          socket2remote = [0 \<mapsto> 1, 1 \<mapsto> 0],
          socket2hostintf = [0 \<mapsto> ''r1/1'', 1 \<mapsto> ''r2/1''],
          connected = {}, next_socket = 2\<rparr>"
  proof -
    have "add_p2p (example_env\<lparr>connect_ok := (\<lambda>a. False)\<rparr>) ''r1/1--r2/1'' TcpBridge_init =
        Inr (add_p2p_register (example_env\<lparr>connect_ok := (\<lambda>a. False)\<rparr>)
          ((''r1/1'', ''r2/1''), (''r1'', ''10001''), (''r2'', ''10001'')) TcpBridge_init)"
      by (simp add: add_p2p_def r)
    then show ?thesis
      by (simp add: add_p2p_register_def try_connect_def TcpBridge_init_def)
  qed
  from add_p2p_peer_map [of "[(example_env\<lparr>connect_ok := (\<lambda>a. False)\<rparr>, ''r1/1--r2/1'')]"
      example_env "''r1/1--r2/1''" "''r1/1''" "''r2/1''" "(''r1'', ''10001'')"
      "(''r2'', ''10001'')" "\<lambda>a. False" TcpBridge_init] r a
  show ?thesis by simp
qed

end
